theory Spec2Isabelle
  imports Complex_Main "HOL-Library.Sublist" "HOL-Library.Product_Lexorder"
begin

section \<open>Strings\<close>

text \<open>
  A Python \<open>str\<close> is modelled as a \<^typ>\<open>string\<close>: a list of 8-bit characters, read as the
  code points 0 to 255. Every string operation of \<open>app.py\<close> maps such strings to such
  strings, with one exception: \<open>html.unescape\<close> can produce any code point. The model
  covers the texts that stay below code point 256.

  The character classes are the ones of Python 3 on code points below 256:
  \<open>str.isspace\<close>, which is also what \<open>str.split()\<close>, \<open>str.strip()\<close> and the pattern
  \<open>\s\<close> use; the line boundaries of \<open>str.splitlines()\<close>; the decimal digits of \<open>\d\<close>.
\<close>

definition newline :: char where
  "newline = CHR 0x0A"

definition backslash :: char where
  "backslash = CHR 0x5C"

definition isspace :: "char \<Rightarrow> bool" where
  "isspace c \<longleftrightarrow> c \<in> set [CHR 0x09, CHR 0x0A, CHR 0x0B, CHR 0x0C, CHR 0x0D,
     CHR 0x1C, CHR 0x1D, CHR 0x1E, CHR 0x1F, CHR 0x20, CHR 0x85, CHR 0xA0]"

definition islinebreak :: "char \<Rightarrow> bool" where
  "islinebreak c \<longleftrightarrow> c \<in> set [CHR 0x0A, CHR 0x0B, CHR 0x0C, CHR 0x0D,
     CHR 0x1C, CHR 0x1D, CHR 0x1E, CHR 0x85]"

definition isdigit :: "char \<Rightarrow> bool" where
  "isdigit c \<longleftrightarrow> c \<in> set ''0123456789''"

definition isupper :: "char \<Rightarrow> bool" where
  "isupper c \<longleftrightarrow> c \<in> set ''ABCDEFGHIJKLMNOPQRSTUVWXYZ'' \<or>
     c \<in> set [CHR 0xC0, CHR 0xC1, CHR 0xC2, CHR 0xC3, CHR 0xC4, CHR 0xC5, CHR 0xC6, CHR 0xC7,
       CHR 0xC8, CHR 0xC9, CHR 0xCA, CHR 0xCB, CHR 0xCC, CHR 0xCD, CHR 0xCE, CHR 0xCF,
       CHR 0xD0, CHR 0xD1, CHR 0xD2, CHR 0xD3, CHR 0xD4, CHR 0xD5, CHR 0xD6,
       CHR 0xD8, CHR 0xD9, CHR 0xDA, CHR 0xDB, CHR 0xDC, CHR 0xDD, CHR 0xDE]"

text \<open>
  \<open>str.lower()\<close>: below code point 256 the letters with a lowercase form are \<open>A\<close> to \<open>Z\<close>
  and 0xC0 to 0xDE without 0xD7; the lowercase form is 32 higher, which sets bit 5.
\<close>

definition lower_char :: "char \<Rightarrow> char" where
  "lower_char c =
     (if isupper c
      then (case c of Char b0 b1 b2 b3 b4 b5 b6 b7 \<Rightarrow> Char b0 b1 b2 b3 b4 True b6 b7)
      else c)"

definition lower :: "string \<Rightarrow> string" where
  "lower s = map lower_char s"

text \<open>\<open>s.strip()\<close> removes the whitespace at both ends.\<close>

definition strip :: "string \<Rightarrow> string" where
  "strip s = rev (dropWhile isspace (rev (dropWhile isspace s)))"

text \<open>\<open>kw in s\<close> on strings: \<open>kw\<close> occurs in \<open>s\<close> as a contiguous substring.\<close>

fun contains :: "string \<Rightarrow> string \<Rightarrow> bool" where
  "contains kw [] = (kw = [])"
| "contains kw (c # cs) = (prefix kw (c # cs) \<or> contains kw cs)"

text \<open>\<open>s.replace(old, new)\<close> for a non-empty \<open>old\<close>: left to right, without overlaps.\<close>

function replace :: "string \<Rightarrow> string \<Rightarrow> string \<Rightarrow> string" where
  "replace old new [] = []"
| "replace old new (c # cs) =
     (if old \<noteq> [] \<and> prefix old (c # cs)
      then new @ replace old new (drop (length old) (c # cs))
      else c # replace old new cs)"
  by pat_completeness auto
termination
  by (relation "measure (\<lambda>(old, new, s). length s)") auto

text \<open>
  \<open>s.split()\<close> scans the string once: whitespace ends the current word, and empty words
  are not produced. \<open>split_from w s\<close> is the scan with \<open>w\<close> the word read so far.
\<close>

fun split_from :: "string \<Rightarrow> string \<Rightarrow> string list" where
  "split_from w [] = (if w = [] then [] else [w])"
| "split_from w (c # cs) =
     (if isspace c then (if w = [] then split_from [] cs else w # split_from [] cs)
      else split_from (w @ [c]) cs)"

definition split :: "string \<Rightarrow> string list" where
  "split s = split_from [] s"

text \<open>
  \<open>s.splitlines()\<close>: a line ends at a line boundary, \<open>\r\n\<close> counting as one; the
  boundaries are dropped, and no empty line is added after a final boundary.
\<close>

fun splitlines_from :: "string \<Rightarrow> string \<Rightarrow> string list" where
  "splitlines_from l [] = (if l = [] then [] else [l])"
| "splitlines_from l (c # cs) =
     (if c = CHR 0x0D \<and> (case cs of d # ds \<Rightarrow> d = CHR 0x0A | [] \<Rightarrow> False)
      then l # splitlines_from [] (tl cs)
      else if islinebreak c then l # splitlines_from [] cs
      else splitlines_from (l @ [c]) cs)"

definition splitlines :: "string \<Rightarrow> string list" where
  "splitlines s = splitlines_from [] s"

text \<open>\<open>sep.join(xs)\<close>.\<close>

fun join :: "string \<Rightarrow> string list \<Rightarrow> string" where
  "join sep [] = []"
| "join sep [x] = x"
| "join sep (x # y # ys) = x @ sep @ join sep (y # ys)"

section \<open>Regular expressions\<close>

text \<open>
  A pattern is modelled by a matcher: applied to the text from some position on, it gives
  the rest of the text after the match, or \<open>None\<close> where the pattern does not match at that
  position. The quantifiers are greedy and do not backtrack. For the four patterns used
  here this is what Python's backtracking \<open>re\<close> computes: wherever a quantified class is
  followed by another element, that element cannot match a character of the class (or, for
  the optional groups, giving characters back cannot help the rest of the pattern, which
  is empty), so the longest repetition is the only one that can lead to a match.
\<close>

type_synonym matcher = "string \<Rightarrow> string option"

definition lit :: "(char \<Rightarrow> bool) \<Rightarrow> matcher" where
  "lit p s = (case s of [] \<Rightarrow> None | c # cs \<Rightarrow> if p c then Some cs else None)"

definition star :: "(char \<Rightarrow> bool) \<Rightarrow> matcher" where
  "star p s = Some (dropWhile p s)"

definition plus :: "(char \<Rightarrow> bool) \<Rightarrow> matcher" where
  "plus p s = (case s of [] \<Rightarrow> None | c # cs \<Rightarrow> if p c then Some (dropWhile p cs) else None)"

definition opt :: "matcher \<Rightarrow> matcher" where
  "opt m s = (case m s of None \<Rightarrow> Some s | Some r \<Rightarrow> Some r)"

fun seqs :: "matcher list \<Rightarrow> matcher" where
  "seqs [] s = Some s"
| "seqs (m # ms) s = (case m s of None \<Rightarrow> None | Some r \<Rightarrow> seqs ms r)"

definition ch :: "char \<Rightarrow> char \<Rightarrow> bool" where
  "ch c d \<longleftrightarrow> d = c"

definition ch_ci :: "char \<Rightarrow> char \<Rightarrow> bool" where
  "ch_ci c d \<longleftrightarrow> lower_char d = lower_char c"

definition match_len :: "matcher \<Rightarrow> string \<Rightarrow> nat" where
  "match_len m s = (case m s of None \<Rightarrow> 0 | Some r \<Rightarrow> length s - length r)"

text \<open>
  \<open>pattern.sub(repl, s)\<close>: the text is scanned from the left; where the pattern matches,
  the match is replaced and the scan goes on after it; elsewhere the character is kept.
  None of the patterns here matches the empty string.
\<close>

function re_sub :: "matcher \<Rightarrow> (string \<Rightarrow> string) \<Rightarrow> string \<Rightarrow> string" where
  "re_sub m repl [] = []"
| "re_sub m repl (c # cs) =
     (let n = match_len m (c # cs)
      in if n = 0 then c # re_sub m repl cs
         else repl (take n (c # cs)) @ re_sub m repl (drop n (c # cs)))"
  by pat_completeness auto
termination
  by (relation "measure (\<lambda>(m, repl, s). length s)") auto

text \<open>
  \<open>pattern.findall(s)\<close> for a pattern with one group: the group's text of every match,
  from left to right. \<open>m\<close> is the whole pattern and \<open>pre\<close> the part of it before the
  group; the group extends to the end of the match.
\<close>

function re_findall :: "matcher \<Rightarrow> matcher \<Rightarrow> string \<Rightarrow> string list" where
  "re_findall pre m [] = []"
| "re_findall pre m (c # cs) =
     (let n = match_len m (c # cs)
      in if n = 0 then re_findall pre m cs
         else drop (match_len pre (c # cs)) (take n (c # cs)) # re_findall pre m (drop n (c # cs)))"
  by pat_completeness auto
termination
  by (relation "measure (\<lambda>(pre, m, s). length s)") auto

section \<open>Job records\<close>

text \<open>
  A record read from the JSON file is a dictionary from string keys to strings or null:
  \<open>job k = None\<close> where the key is absent, \<open>Some None\<close> where its value is null.
  \<open>get_or_empty job k\<close> is the expression \<^verbatim>\<open>job.get(k) or ''\<close>.
\<close>

type_synonym raw_job = "string \<rightharpoonup> string option"

definition get_or_empty :: "raw_job \<Rightarrow> string \<Rightarrow> string" where
  "get_or_empty job k = (case job k of Some (Some s) \<Rightarrow> s | _ \<Rightarrow> [])"

text \<open>
  Exceptions are values: a function that can raise returns \<open>Inl\<close> of the exception class.
  An exception of a subclass counts as its class in this list, as it does for \<open>except\<close>.
\<close>

datatype exn = ValueError | TypeError | IndexError | OverflowError | ZeroDivisionError | KeyError

section \<open>Standard library\<close>

text \<open>
  The functions of the standard library that decode character references, parse dates
  and format dates are not part of the repository: the model takes them as a parameter
  \<open>lib\<close>, and what is proved holds for every \<open>lib\<close>. Each of the decoders and parsers
  either returns or raises an exception.

  A naive \<open>datetime\<close> is the tuple of its fields (year, month, day, hour, minute, second,
  microsecond); Python compares naive datetimes field by field in this order, which is
  the lexicographic order of the tuples. An aware datetime carries its UTC offset in
  addition, and \<open>replace(tzinfo=None)\<close> drops it.

  \<open>charref_sub lib s\<close> is the expression \<^verbatim>\<open>_charref.sub(_replace_charref, s)\<close> of
  \<open>html.unescape\<close>: \<open>s\<close> with its character references decoded. It raises \<open>ValueError\<close>
  where a numeric reference has more digits than the interpreter converts to an integer.
\<close>

type_synonym datetime = "nat \<times> nat \<times> nat \<times> nat \<times> nat \<times> nat \<times> nat"

type_synonym aware_datetime = "datetime \<times> int option"

definition datetime_min :: datetime where
  "datetime_min = (1, 1, 1, 0, 0, 0, 0)"

definition replace_tzinfo_None :: "aware_datetime \<Rightarrow> datetime" where
  "replace_tzinfo_None dt = fst dt"

record pylib =
  charref_sub :: "string \<Rightarrow> exn + string"
  fromisoformat :: "string \<Rightarrow> exn + aware_datetime"
  parsedate_to_datetime :: "string \<Rightarrow> exn + aware_datetime"
  strptime :: "string \<Rightarrow> string \<Rightarrow> exn + datetime"
  strftime :: "datetime \<Rightarrow> string \<Rightarrow> string"

section \<open>Text Normalizer\<close>

text \<open>
  \<open>html.unescape(s)\<close>, after its two statements in the standard library:
  \<^verbatim>\<open>if '&' not in s: return s\<close> and \<^verbatim>\<open>return _charref.sub(_replace_charref, s)\<close>.
  A string without \<open>&\<close> is returned as it is; any other string is decoded by the library.
\<close>

definition unescape :: "pylib \<Rightarrow> string \<Rightarrow> exn + string" where
  "unescape lib s = (if CHR ''&'' \<notin> set s then Inr s else charref_sub lib s)"

text \<open>
  \<^verbatim>\<open>_TAG_RE = re.compile(r"<[^>]+>")\<close>
  \<^verbatim>\<open>_BR_RE = re.compile(r"<\\s*br\\s*/?\\s*>", re.IGNORECASE)\<close>

  Both are raw string literals. In \<open>_BR_RE\<close> every backslash is doubled, so the pattern
  that is compiled reads: \<open><\<close>, a backslash, any number of \<open>s\<close>, \<open>br\<close>, a backslash, any
  number of \<open>s\<close>, an optional \<open>/\<close>, a backslash, any number of \<open>s\<close>, \<open>>\<close> (letters in
  either case).
\<close>

definition TAG_RE :: matcher where
  "TAG_RE = seqs [lit (ch (CHR ''<'')), plus (\<lambda>c. c \<noteq> CHR ''>''), lit (ch (CHR ''>''))]"

definition BR_RE :: matcher where
  "BR_RE = seqs [lit (ch (CHR ''<'')),
     lit (ch backslash), star (ch_ci (CHR ''s'')),
     lit (ch_ci (CHR ''b'')), lit (ch_ci (CHR ''r'')),
     lit (ch backslash), star (ch_ci (CHR ''s'')),
     opt (lit (ch (CHR ''/''))),
     lit (ch backslash), star (ch_ci (CHR ''s'')),
     lit (ch (CHR ''>''))]"

text \<open>
  \<open>clean_text(value)\<close>; \<open>None\<close> is Python's \<open>None\<close>. The values of a job record are strings
  or null, so the branch that applies \<open>str\<close> to other values is not taken. An exception
  of \<open>unescape\<close> is not caught.
\<close>

definition clean_text :: "pylib \<Rightarrow> string option \<Rightarrow> exn + string" where
  "clean_text lib v =
     (case v of
        None \<Rightarrow> Inr []
      | Some s \<Rightarrow>
          (let text = re_sub BR_RE (\<lambda>m. [newline]) s
           in case unescape lib text of
                Inl e \<Rightarrow> Inl e
              | Inr text \<Rightarrow>
                  (let text = re_sub TAG_RE (\<lambda>m. '' '') text;
                       lines = map (\<lambda>line. join '' '' (split line)) (splitlines text)
                   in Inr (join [newline] (filter (\<lambda>line. line \<noteq> []) lines)))))"

section \<open>Salary Parser\<close>

text \<open>
  A Python \<open>float\<close> is modelled by the rational number it stands for, and the arithmetic
  of the model is exact. The code computes in binary floating point: every conversion,
  sum, quotient and product is rounded to the nearest representable number, and a
  number too large becomes infinity. So the model gives the sign of a result and the
  brackets that a value away from their bounds falls in, but not the value that the
  code returns to the last digit, nor the branch taken by a mean that rounding moves
  across 50 or 10000.

  \<open>py_float\<close> is \<open>float(s)\<close> on the strings that reach it, which consist of digits and
  dots: digits with an optional fractional part, at least one digit in all; anything
  else raises \<open>ValueError\<close> (\<open>None\<close>). \<open>int_of\<close> is the value of a string of decimal
  digits.
\<close>

definition digit_val :: "char \<Rightarrow> nat" where
  "digit_val c = of_char c - 48"

definition int_of :: "string \<Rightarrow> nat" where
  "int_of ds = foldl (\<lambda>a d. 10 * a + digit_val d) 0 ds"

definition py_float :: "string \<Rightarrow> rat option" where
  "py_float s =
     (let ip = takeWhile isdigit s; r = dropWhile isdigit s
      in if r = [] then (if ip = [] then None else Some (of_nat (int_of ip)))
         else if hd r = CHR ''.'' \<and> list_all isdigit (tl r) \<and> (ip \<noteq> [] \<or> tl r \<noteq> [])
         then Some (of_nat (int_of ip) + of_nat (int_of (tl r)) / 10 ^ length (tl r))
         else None)"

definition truediv :: "rat \<Rightarrow> nat \<Rightarrow> exn + rat" where
  "truediv a n = (if n = 0 then Inl ZeroDivisionError else Inr (a / of_nat n))"

text \<open>
  \<^verbatim>\<open>_SALARY_NUM_RE = re.compile(r'[\$]?\s*([\d,]+(?:\.\d+)?)')\<close>;
  \<open>SALARY_NUM_PRE\<close> is the part before the group.
\<close>

definition SALARY_NUM_PRE :: matcher where
  "SALARY_NUM_PRE = seqs [opt (lit (ch (CHR ''$''))), star isspace]"

definition SALARY_NUM_RE :: matcher where
  "SALARY_NUM_RE = seqs [opt (lit (ch (CHR ''$''))), star isspace,
     plus (\<lambda>c. isdigit c \<or> c = CHR '',''),
     opt (seqs [lit (ch (CHR ''.'')), plus isdigit])]"

text \<open>The loop over the tokens; a token that \<open>float\<close> rejects is skipped.\<close>

fun collect_nums :: "string list \<Rightarrow> rat list" where
  "collect_nums [] = []"
| "collect_nums (n # ns) =
     (let n' = strip (replace '','' [] n)
      in if n' \<noteq> []
         then (case py_float n' of Some x \<Rightarrow> x # collect_nums ns | None \<Rightarrow> collect_nums ns)
         else collect_nums ns)"

definition skip_salary :: "string \<Rightarrow> bool" where
  "skip_salary low \<longleftrightarrow>
     low \<in> set [''tbd'', ''n/a'', ''doe'', ''any'', ''negotiable'', ''project-based''] \<or>
     contains ''based on'' low \<or> contains ''competitive'' low"

definition any_in :: "string list \<Rightarrow> string \<Rightarrow> bool" where
  "any_in kws low = list_ex (\<lambda>kw. contains kw low) kws"

definition parse_salary_monthly :: "raw_job \<Rightarrow> exn + rat option" where
  "parse_salary_monthly job =
     (let raw = strip (get_or_empty job ''salary'')
      in if raw = [] then Inr None
         else
           let low = lower raw
           in if skip_salary low then Inr None
              else
                let nums = collect_nums (re_findall SALARY_NUM_PRE SALARY_NUM_RE raw)
                in if nums = [] then Inr None
                   else
                     (case truediv (sum_list nums) (length nums) of
                        Inl e \<Rightarrow> Inl e
                      | Inr avg \<Rightarrow>
                          if any_in [''/hr'', ''/hour'', ''per hour'', ''hourly'', ''hour''] low
                          then Inr (Some (avg * 160))
                          else if any_in [''/yr'', ''/year'', ''annual'', ''yearly''] low
                          then Inr (Some (avg / 12))
                          else if any_in [''/w'', ''/week'', ''weekly'', ''per week''] low
                          then Inr (Some (avg * 4))
                          else if any_in [''/mo'', ''/month'', ''monthly'', ''per month''] low
                          then Inr (Some avg)
                          else if avg > 10000 then Inr (Some (avg / 12))
                          else if avg < 50 then Inr (Some (avg * 160))
                          else Inr (Some avg)))"

section \<open>Classifier\<close>

definition ARRANGEMENT_KEYWORDS :: "(string \<times> string list) list" where
  "ARRANGEMENT_KEYWORDS =
     [(''remote'', [''remote'', ''work from home'', ''wfh'', ''anywhere'']),
      (''hybrid'', [''hybrid'']),
      (''onsite'', [''onsite'', ''on-site'', ''on site'', ''in-office'', ''in office''])]"

definition TYPE_KEYWORDS :: "(string \<times> string list) list" where
  "TYPE_KEYWORDS =
     [(''full-time'', [''full-time'', ''full time'', ''fulltime'']),
      (''part-time'', [''part-time'', ''part time'', ''parttime'']),
      (''contract'', [''contract'']),
      (''freelance'', [''freelance'', ''gig''])]"

text \<open>
  The two nested loops over the items of a keyword table, in insertion order, returning
  at the first keyword found; \<open>''\<close> after the loops.
\<close>

fun first_label :: "(string \<times> string list) list \<Rightarrow> string \<Rightarrow> string" where
  "first_label [] text = []"
| "first_label ((label, keywords) # rest) text =
     (if list_ex (\<lambda>kw. contains kw text) keywords then label else first_label rest text)"

definition detect_arrangement :: "raw_job \<Rightarrow> string" where
  "detect_arrangement job =
     (let text = lower (join '' '' [get_or_empty job ''location'', get_or_empty job ''title'',
                   get_or_empty job ''category'', get_or_empty job ''type''])
      in first_label ARRANGEMENT_KEYWORDS text)"

definition detect_job_type :: "raw_job \<Rightarrow> string" where
  "detect_job_type job =
     (let text = lower (join '' '' [get_or_empty job ''category'', get_or_empty job ''type'',
                   get_or_empty job ''title''])
      in first_label TYPE_KEYWORDS text)"

section \<open>Date Parser\<close>

text \<open>
  The four attempts of \<open>parse_date\<close>, each with the exceptions that its \<open>except\<close> clause
  catches; any other exception leaves the function.
\<close>

definition parse_date :: "pylib \<Rightarrow> raw_job \<Rightarrow> exn + datetime option" where
  "parse_date lib job =
     (let raw = strip (let p = get_or_empty job ''posted_date''
                       in if p \<noteq> [] then p else get_or_empty job ''date_posted'')
      in if raw = [] then Inr None
         else
           (case fromisoformat lib raw of
              Inr dt \<Rightarrow> Inr (Some (replace_tzinfo_None dt))
            | Inl e \<Rightarrow>
                if e \<notin> set [ValueError, TypeError] then Inl e
                else
                  (case parsedate_to_datetime lib raw of
                     Inr dt \<Rightarrow> Inr (Some (replace_tzinfo_None dt))
                   | Inl e \<Rightarrow>
                       if e \<notin> set [ValueError, TypeError, IndexError] then Inl e
                       else
                         (case strptime lib raw ''%b %d, %Y'' of
                            Inr dt \<Rightarrow> Inr (Some dt)
                          | Inl e \<Rightarrow>
                              if e \<notin> set [ValueError, TypeError] then Inl e
                              else
                                (case strptime lib raw ''%Y-%m-%d'' of
                                   Inr dt \<Rightarrow> Inr (Some dt)
                                 | Inl e \<Rightarrow>
                                     if e \<notin> set [ValueError, TypeError] then Inl e
                                     else Inr None)))))"

definition format_date :: "pylib \<Rightarrow> datetime option \<Rightarrow> string" where
  "format_date lib dt =
     (case dt of
        None \<Rightarrow> []
      | Some d \<Rightarrow> replace '' 0'' '' '' (strftime lib d ''%b %d, %Y''))"

section \<open>Loading\<close>

text \<open>
  \<open>load_jobs\<close> adds six keys to every record. The model keeps them as typed fields next to
  the keys read from the file (\<open>entries\<close>); the key \<open>id\<close> is the field \<open>id_key\<close>, and the
  keys \<open>_arrangement\<close>, \<open>_job_type\<close>, \<open>_parsed_date\<close>, \<open>_display_date\<close> and \<open>_salary_monthly\<close>
  are the fields of the same name without the underscore. None of the added keys is read
  by the functions that compute them, and \<open>apply_filters\<close> reads the six keys from the
  typed fields only. A key of the file that has the name of an added key is overwritten
  by \<open>load_jobs\<close>: in \<open>entries\<close> it is hidden by the typed field.
\<close>

record job =
  entries :: raw_job
  id_key :: nat
  arrangement :: string
  job_type :: string
  parsed_date :: "datetime option"
  display_date :: string
  salary_monthly :: "rat option"

definition TEXT_KEYS :: "string list" where
  "TEXT_KEYS = [''title'', ''description'', ''job_description'', ''company'', ''location'',
     ''salary'', ''type'', ''category'']"

text \<open>
  The loop of \<open>normalize_job_text\<close> over the keys: a key that the record has is given the
  cleaned text of its value; an exception of \<open>clean_text\<close> ends the loop.
\<close>

fun normalize_keys :: "pylib \<Rightarrow> string list \<Rightarrow> raw_job \<Rightarrow> exn + raw_job" where
  "normalize_keys lib [] job = Inr job"
| "normalize_keys lib (key # keys) job =
     (case job key of
        None \<Rightarrow> normalize_keys lib keys job
      | Some v \<Rightarrow>
          (case clean_text lib v of
             Inl e \<Rightarrow> Inl e
           | Inr t \<Rightarrow> normalize_keys lib keys (job(key \<mapsto> Some t))))"

definition normalize_job_text :: "pylib \<Rightarrow> raw_job \<Rightarrow> exn + raw_job" where
  "normalize_job_text lib job = normalize_keys lib TEXT_KEYS job"

text \<open>The body of the loop of \<open>load_jobs\<close>, for the record at index \<open>idx\<close>.\<close>

definition load_job :: "pylib \<Rightarrow> nat \<Rightarrow> raw_job \<Rightarrow> exn + job" where
  "load_job lib idx raw =
     (case normalize_job_text lib raw of
        Inl e \<Rightarrow> Inl e
      | Inr f \<Rightarrow>
          (let a = detect_arrangement f;
               t = detect_job_type f
           in case parse_date lib f of
                Inl e \<Rightarrow> Inl e
              | Inr d \<Rightarrow>
                  (let s = format_date lib d
                   in case parse_salary_monthly f of
                        Inl e \<Rightarrow> Inl e
                      | Inr m \<Rightarrow>
                          Inr \<lparr>entries = f, id_key = idx, arrangement = a, job_type = t,
                               parsed_date = d, display_date = s, salary_monthly = m\<rparr>)))"

fun load_from :: "pylib \<Rightarrow> nat \<Rightarrow> raw_job list \<Rightarrow> exn + job list" where
  "load_from lib idx [] = Inr []"
| "load_from lib idx (raw # rest) =
     (case load_job lib idx raw of
        Inl e \<Rightarrow> Inl e
      | Inr j \<Rightarrow>
          (case load_from lib (Suc idx) rest of
             Inl e \<Rightarrow> Inl e
           | Inr js \<Rightarrow> Inr (j # js)))"

text \<open>
  The file is the parameter \<open>file\<close>: \<open>None\<close> where it is missing or is not valid JSON
  (\<open>FileNotFoundError\<close>, \<open>JSONDecodeError\<close>: the empty list is returned), otherwise the list
  of records it holds. Any other exception leaves \<open>load_jobs\<close>.
\<close>

definition load_jobs :: "pylib \<Rightarrow> raw_job list option \<Rightarrow> exn + job list" where
  "load_jobs lib file = (case file of None \<Rightarrow> Inr [] | Some jobs \<Rightarrow> load_from lib 0 jobs)"

section \<open>Filter and Sort Engine\<close>

text \<open>
  Python lists are mutable objects, and \<open>apply_filters\<close> both builds new lists and sorts
  a list in place. The model has an explicit store of list objects: a reference is an
  index into the store, a list comprehension allocates a new object, and \<open>list.sort\<close>
  updates the object it is called on.
\<close>

type_synonym ref = nat

type_synonym store = "job list list"

definition new_list :: "job list \<Rightarrow> store \<Rightarrow> ref \<times> store" where
  "new_list xs h = (length h, h @ [xs])"

text \<open>
  \<open>list.sort(key=..., reverse=...)\<close> is stable. With \<open>reverse=True\<close> the order is
  descending and elements with equal keys still keep their original order: the list is
  reversed, sorted, and reversed again.
\<close>

definition list_sort :: "(job \<Rightarrow> datetime) \<Rightarrow> bool \<Rightarrow> ref \<Rightarrow> store \<Rightarrow> store" where
  "list_sort key reverse r h =
     h[r := (if reverse then rev (sort_key key (rev (h ! r))) else sort_key key (h ! r))]"

datatype bound = Finite rat | Infinity

definition below :: "rat \<Rightarrow> bound \<Rightarrow> bool" where
  "below v hi = (case hi of Finite b \<Rightarrow> v < b | Infinity \<Rightarrow> True)"

definition SALARY_RANGES :: "(string \<times> rat \<times> bound) list" where
  "SALARY_RANGES =
     [(''under500'', (0, Finite 500)),
      (''500to1000'', (500, Finite 1000)),
      (''1000to2000'', (1000, Finite 2000)),
      (''2000to5000'', (2000, Finite 5000)),
      (''5000plus'', (5000, Infinity))]"

text \<open>\<open>d[k]\<close> on a dictionary raises \<open>KeyError\<close> where the key is missing.\<close>

definition subscript :: "('k \<times> 'v) list \<Rightarrow> 'k \<Rightarrow> exn + 'v" where
  "subscript d k = (case map_of d k of None \<Rightarrow> Inl KeyError | Some v \<Rightarrow> Inr v)"

text \<open>\<open>j.get(k, '')\<close>: the value of the key, which may be null, or \<open>''\<close> where it is absent.\<close>

definition get_default_empty :: "job \<Rightarrow> string \<Rightarrow> string option" where
  "get_default_empty j k = (case entries j k of None \<Rightarrow> Some [] | Some v \<Rightarrow> v)"

record criteria =
  source_filter :: string
  category_filter :: string
  search_query :: string
  arrangement_filter :: string
  job_type_filter :: string
  sort_by :: string
  salary_filter :: string

definition sort_key_of :: "job \<Rightarrow> datetime" where
  "sort_key_of j = (case parsed_date j of Some d \<Rightarrow> d | None \<Rightarrow> datetime_min)"

definition source_ok :: "criteria \<Rightarrow> job \<Rightarrow> bool" where
  "source_ok c j \<longleftrightarrow> get_default_empty j ''source'' = Some (source_filter c)"

definition category_ok :: "criteria \<Rightarrow> job \<Rightarrow> bool" where
  "category_ok c j \<longleftrightarrow>
     get_default_empty j ''category'' = Some (category_filter c) \<or>
     get_default_empty j ''type'' = Some (category_filter c)"

definition arrangement_ok :: "criteria \<Rightarrow> job \<Rightarrow> bool" where
  "arrangement_ok c j \<longleftrightarrow> arrangement j = arrangement_filter c"

definition job_type_ok :: "criteria \<Rightarrow> job \<Rightarrow> bool" where
  "job_type_ok c j \<longleftrightarrow> job_type j = job_type_filter c"

definition salary_ok :: "rat \<Rightarrow> bound \<Rightarrow> job \<Rightarrow> bool" where
  "salary_ok lo hi j \<longleftrightarrow>
     (case salary_monthly j of None \<Rightarrow> False | Some v \<Rightarrow> lo \<le> v \<and> below v hi)"

definition search_ok :: "string \<Rightarrow> job \<Rightarrow> bool" where
  "search_ok q j \<longleftrightarrow>
     contains q (lower (get_or_empty (entries j) ''title'')) \<or>
     contains q (lower (get_or_empty (entries j) ''description'')) \<or>
     contains q (lower (get_or_empty (entries j) ''job_description''))"

text \<open>
  \<open>apply_filters h jobs c\<close>: the call \<open>apply_filters(jobs, ...)\<close> in the store \<open>h\<close>, where
  \<open>jobs\<close> refers to the caller's list. It returns the reference it hands back and the
  store after the call.
\<close>

definition apply_filters :: "store \<Rightarrow> ref \<Rightarrow> criteria \<Rightarrow> exn + ref \<times> store" where
  "apply_filters h jobs c =
     (let filtered = jobs;
          (filtered, h) =
            (if source_filter c \<noteq> []
             then new_list (filter (source_ok c) (h ! filtered)) h else (filtered, h));
          (filtered, h) =
            (if category_filter c \<noteq> []
             then new_list (filter (category_ok c) (h ! filtered)) h else (filtered, h));
          (filtered, h) =
            (if arrangement_filter c \<noteq> []
             then new_list (filter (arrangement_ok c) (h ! filtered)) h else (filtered, h));
          (filtered, h) =
            (if job_type_filter c \<noteq> []
             then new_list (filter (job_type_ok c) (h ! filtered)) h else (filtered, h))
      in case (if salary_filter c \<noteq> [] \<and> salary_filter c \<in> fst ` set SALARY_RANGES
               then (case subscript SALARY_RANGES (salary_filter c) of
                       Inl e \<Rightarrow> Inl e
                     | Inr (lo, hi) \<Rightarrow> Inr (new_list (filter (salary_ok lo hi) (h ! filtered)) h))
               else Inr (filtered, h)) of
           Inl e \<Rightarrow> Inl e
         | Inr (filtered, h) \<Rightarrow>
             (let (filtered, h) =
                    (if search_query c \<noteq> []
                     then (let q = lower (search_query c)
                           in new_list (filter (search_ok q) (h ! filtered)) h)
                     else (filtered, h));
                  h = (if sort_by c = ''oldest''
                       then list_sort sort_key_of False filtered h
                       else list_sort sort_key_of True filtered h)
              in Inr (filtered, h)))"

section \<open>Paginator\<close>

text \<open>
  The pagination of \<open>index\<close>. \<open>page\<close> is the integer read from the request. The quotient
  under \<open>math.ceil\<close> is the exact one. Python's
  \<open>xs[a:b]\<close> with \<open>0 \<le> a\<close> and \<open>0 \<le> b\<close> is \<open>slice xs a b\<close>; \<open>start\<close> is never negative here
  because the page is at least 1.
\<close>

definition JOBS_PER_PAGE :: int where
  "JOBS_PER_PAGE = 20"

definition total_pages :: "'a list \<Rightarrow> int" where
  "total_pages filtered_jobs =
     max 1 \<lceil>real (length filtered_jobs) / real_of_int JOBS_PER_PAGE\<rceil>"

definition current_page :: "'a list \<Rightarrow> int \<Rightarrow> int" where
  "current_page filtered_jobs page = max 1 (min page (total_pages filtered_jobs))"

definition slice :: "'a list \<Rightarrow> int \<Rightarrow> int \<Rightarrow> 'a list" where
  "slice xs a b = take (nat b - nat a) (drop (nat a) xs)"

definition paginated_jobs :: "'a list \<Rightarrow> int \<Rightarrow> 'a list" where
  "paginated_jobs filtered_jobs page =
     (let start = (current_page filtered_jobs page - 1) * JOBS_PER_PAGE
      in slice filtered_jobs start (start + JOBS_PER_PAGE))"

section \<open>Single-record lookup\<close>

text \<open>\<open>job_to_dict\<close> copies every key except \<open>_parsed_date\<close>.\<close>

record job_dict =
  d_entries :: raw_job
  d_id :: nat
  d_arrangement :: string
  d_job_type :: string
  d_display_date :: string
  d_salary_monthly :: "rat option"

definition job_to_dict :: "job \<Rightarrow> job_dict" where
  "job_to_dict j = \<lparr>d_entries = entries j, d_id = id_key j, d_arrangement = arrangement j,
     d_job_type = job_type j, d_display_date = display_date j,
     d_salary_monthly = salary_monthly j\<rparr>"

text \<open>
  The response of \<open>api_job_detail\<close>: the record as JSON with status 200, or the error body
  \<open>{'error': 'Job not found'}\<close> with status 404.
\<close>

datatype response = Ok job_dict | NotFound

definition api_job_detail :: "pylib \<Rightarrow> raw_job list option \<Rightarrow> int \<Rightarrow> exn + response" where
  "api_job_detail lib file job_id =
     (case load_jobs lib file of
        Inl e \<Rightarrow> Inl e
      | Inr jobs \<Rightarrow>
          if 0 \<le> job_id \<and> job_id < int (length jobs)
          then Inr (Ok (job_to_dict (jobs ! nat job_id)))
          else Inr NotFound)"

section \<open>Definitions used in the properties\<close>

text \<open>
  The conversion of the mean to a monthly value, as the spec's steps 5 and 6 of the
  Salary Parser put it: the period is found by substring search on the lower-cased
  string, in the order hourly, yearly, weekly, monthly, and the first match decides;
  without a keyword the magnitude of the mean decides. \<open>low\<close> is the lower-cased string,
  \<open>avg\<close> the mean of the extracted numbers.
\<close>

definition spec_period_rule :: "string \<Rightarrow> rat \<Rightarrow> rat" where
  "spec_period_rule low avg =
     (if \<exists>kw \<in> set [''/hr'', ''/hour'', ''per hour'', ''hourly'', ''hour'']. sublist kw low
      then avg * 160
      else if \<exists>kw \<in> set [''/yr'', ''/year'', ''annual'', ''yearly'']. sublist kw low
      then avg / 12
      else if \<exists>kw \<in> set [''/w'', ''/week'', ''weekly'', ''per week'']. sublist kw low
      then avg * 4
      else if \<exists>kw \<in> set [''/mo'', ''/month'', ''monthly'', ''per month'']. sublist kw low
      then avg
      else if avg > 10000 then avg / 12
      else if avg < 50 then avg * 160
      else avg)"

text \<open>
  Inputs for the examples: a library that agrees with CPython on the strings of the
  examples. These hold no character reference other than \<open>&amp;\<close>, which is decoded to
  \<open>&\<close>; the ISO date \<open>2025-11-05\<close> is parsed by \<open>datetime.fromisoformat\<close>, and
  \<open>strftime('%b %d, %Y')\<close> of that day is \<open>Nov 05, 2025\<close>.
\<close>

definition sample_lib :: pylib where
  "sample_lib =
     \<lparr>charref_sub = (\<lambda>s. Inr (replace ''&amp;'' ''&'' s)),
      fromisoformat = (\<lambda>s. if s = ''2025-11-05'' then Inr ((2025, 11, 5, 0, 0, 0, 0), None)
                            else Inl ValueError),
      parsedate_to_datetime = (\<lambda>s. Inl ValueError),
      strptime = (\<lambda>s f. Inl ValueError),
      strftime = (\<lambda>d f. if d = (2025, 11, 5, 0, 0, 0, 0) \<and> f = ''%b %d, %Y''
                         then ''Nov 05, 2025'' else [])\<rparr>"

definition sample_file :: "raw_job list" where
  "sample_file =
     [[''title'' \<mapsto> Some ''<b>Senior</b>  Dev &amp; Ops'', ''company'' \<mapsto> None,
       ''location'' \<mapsto> Some ''Remote'', ''salary'' \<mapsto> Some ''$20/hr'',
       ''posted_date'' \<mapsto> Some ''2025-11-05'', ''source'' \<mapsto> Some ''<i>board</i>''],
      Map.empty]"

text \<open>
  The statements of \<open>apply_filters\<close> as functions on lists. A stage is one statement
  \<^verbatim>\<open>if b: filtered = [j for j in filtered if p(j)]\<close> acting on the variable \<open>filtered\<close> and
  the store; \<open>keeps c\<close> is the conjunction of the criteria that \<open>c\<close> applies, \<open>copies c\<close>
  tells whether at least one of them is applied, and \<open>ordered c\<close> is the final sort.
\<close>

definition stage :: "bool \<Rightarrow> (job \<Rightarrow> bool) \<Rightarrow> ref \<times> store \<Rightarrow> ref \<times> store" where
  "stage b p fh = (if b then new_list (filter p (snd fh ! fst fh)) (snd fh) else fh)"

definition salary_applies :: "criteria \<Rightarrow> bool" where
  "salary_applies c \<longleftrightarrow> salary_filter c \<noteq> [] \<and> map_of SALARY_RANGES (salary_filter c) \<noteq> None"

definition salary_pred :: "criteria \<Rightarrow> job \<Rightarrow> bool" where
  "salary_pred c =
     (case map_of SALARY_RANGES (salary_filter c) of
        Some (lo, hi) \<Rightarrow> salary_ok lo hi
      | None \<Rightarrow> (\<lambda>j. True))"

definition keeps :: "criteria \<Rightarrow> job \<Rightarrow> bool" where
  "keeps c j \<longleftrightarrow>
     (source_filter c = [] \<or> source_ok c j) \<and>
     (category_filter c = [] \<or> category_ok c j) \<and>
     (arrangement_filter c = [] \<or> arrangement_ok c j) \<and>
     (job_type_filter c = [] \<or> job_type_ok c j) \<and>
     (salary_applies c = False \<or> salary_pred c j) \<and>
     (search_query c = [] \<or> search_ok (lower (search_query c)) j)"

definition copies :: "criteria \<Rightarrow> bool" where
  "copies c \<longleftrightarrow>
     source_filter c \<noteq> [] \<or> category_filter c \<noteq> [] \<or> arrangement_filter c \<noteq> [] \<or>
     job_type_filter c \<noteq> [] \<or> salary_applies c \<or> search_query c \<noteq> []"

definition ordered :: "criteria \<Rightarrow> job list \<Rightarrow> job list" where
  "ordered c xs =
     (if sort_by c = ''oldest'' then sort_key sort_key_of xs
      else rev (sort_key sort_key_of (rev xs)))"

text \<open>
  What holds between the stages: \<open>filtered\<close> refers to a list with the contents \<open>xs\<close>; the
  objects of the initial store \<open>h\<close> are unchanged; and \<open>filtered\<close> is either still the
  caller's list, or a list allocated since.
\<close>

definition reach :: "store \<Rightarrow> ref \<Rightarrow> job list \<Rightarrow> bool \<Rightarrow> ref \<times> store \<Rightarrow> bool" where
  "reach h jobs xs fresh fh \<longleftrightarrow>
     fst fh < length (snd fh) \<and> snd fh ! fst fh = xs \<and> take (length h) (snd fh) = h \<and>
     length h \<le> length (snd fh) \<and>
     (if fresh then length h \<le> fst fh else fst fh = jobs \<and> snd fh = h)"

text \<open>Inputs for the examples.\<close>

definition blank_job :: "nat \<Rightarrow> datetime option \<Rightarrow> job" where
  "blank_job n d = \<lparr>entries = Map.empty, id_key = n, arrangement = [], job_type = [],
     parsed_date = d, display_date = [], salary_monthly = None\<rparr>"

definition no_criteria :: criteria where
  "no_criteria = \<lparr>source_filter = [], category_filter = [], search_query = [],
     arrangement_filter = [], job_type_filter = [], sort_by = [], salary_filter = []\<rparr>"

text \<open>
  For the idempotence of \<open>clean_text\<close>. \<open>tagfree s\<close>: the pattern \<open>_TAG_RE\<close> matches at no
  position of \<open>s\<close>. \<open>squeeze s t\<close>: \<open>t\<close> is \<open>s\<close> with some whitespace characters removed and
  some replaced by other whitespace characters. \<open>spares m\<close>: a match of \<open>m\<close> consumes no
  \<open>>\<close>.
\<close>

fun tagfree :: "string \<Rightarrow> bool" where
  "tagfree [] = True"
| "tagfree (c # cs) = (TAG_RE (c # cs) = None \<and> tagfree cs)"

inductive squeeze :: "string \<Rightarrow> string \<Rightarrow> bool" where
  squeeze_Nil: "squeeze [] []"
| squeeze_keep: "squeeze s t \<Longrightarrow> squeeze (c # s) (c # t)"
| squeeze_drop: "isspace c \<Longrightarrow> squeeze s t \<Longrightarrow> squeeze (c # s) t"
| squeeze_swap: "isspace c \<Longrightarrow> isspace d \<Longrightarrow> squeeze s t \<Longrightarrow> squeeze (c # s) (d # t)"

definition spares :: "matcher \<Rightarrow> bool" where
  "spares m \<longleftrightarrow> (\<forall>s r. m s = Some r \<longrightarrow> (\<exists>p. s = p @ r \<and> CHR ''>'' \<notin> set p))"

text \<open>The whitespace normalisation at the end of \<open>clean_text\<close>.\<close>

definition squash :: "string \<Rightarrow> string" where
  "squash line = join '' '' (split line)"

definition normalize_lines :: "string \<Rightarrow> string" where
  "normalize_lines text =
     join [newline] (filter (\<lambda>line. line \<noteq> []) (map squash (splitlines text)))"

text \<open>
  A library that behaves as CPython does on the string
  \<open>Wed, 12 Nov 2025 08:56:02 +9999999999999999\<close>: \<open>datetime.fromisoformat\<close> rejects it with
  \<open>ValueError\<close>, and \<open>email.utils.parsedate_to_datetime\<close> raises \<open>OverflowError\<close>, because the
  offset does not fit a \<open>timedelta\<close>.
\<close>

definition overflowing_lib :: pylib where
  "overflowing_lib = \<lparr>charref_sub = (\<lambda>s. Inr s), fromisoformat = (\<lambda>s. Inl ValueError),
     parsedate_to_datetime = (\<lambda>s. Inl OverflowError),
     strptime = (\<lambda>s f. Inl ValueError), strftime = (\<lambda>d f. [])\<rparr>"

section \<open>Properties\<close>

lemmas char_classes = isspace_def islinebreak_def isdigit_def isupper_def
  lower_char_def ch_def ch_ci_def newline_def backslash_def

lemmas matchers = lit_def star_def plus_def opt_def match_len_def

subsection \<open>Line-break tags\<close>

text \<open>
  C1. The claim: line-break tags (\<open><br>\<close>, \<open><br/>\<close>) become newline characters before the
  generic tag stripping, so that \<open>clean("a<br>b")\<close> is \<open>a\<close>, newline, \<open>b\<close>.
  The code: the pattern \<open>_BR_RE\<close> asks for a backslash after \<open><\<close>, so it does not match
  \<open><br>\<close>; the tag is left to the generic stripping, which puts a space, and the result is
  the single line \<open>a b\<close>.
\<close>

theorem clean_text_br:
  "BR_RE ''<br>'' = None \<and> clean_text lib (Some ''a<br>b'') = Inr ''a b'' \<and>
   clean_text lib (Some ''a<br>b'') \<noteq> Inr [CHR ''a'', newline, CHR ''b'']"
  by (simp add: clean_text_def unescape_def BR_RE_def TAG_RE_def split_def splitlines_def
      char_classes matchers)

subsection \<open>Pagination\<close>

lemma ceil20: "\<lceil>real n / 20\<rceil> = (int n + 19) div 20"
proof -
  define k where "k = (int n + 19) div 20"
  have e: "k * 20 + (int n + 19) mod 20 = int n + 19"
    unfolding k_def by (rule div_mult_mod_eq)
  have m: "0 \<le> (int n + 19) mod 20" "(int n + 19) mod 20 < 20"
    by simp_all
  from e m have i: "int n \<le> 20 * k" "20 * k - 20 < int n"
    by linarith+
  from i(1) have "real_of_int (int n) \<le> real_of_int (20 * k)"
    by (rule of_int_le_iff [THEN iffD2])
  then have u: "real n / 20 \<le> of_int k" by simp
  from i(2) have "real_of_int (20 * k - 20) < real_of_int (int n)"
    by (rule of_int_less_iff [THEN iffD2])
  then have l: "of_int k - 1 < real n / 20" by simp
  from l u have "\<lceil>real n / 20\<rceil> = k" by (rule ceiling_unique)
  then show ?thesis by (simp add: k_def)
qed

lemma total_pages_div: "total_pages xs = max 1 ((int (length xs) + 19) div 20)"
  by (simp add: total_pages_def JOBS_PER_PAGE_def ceil20)

lemma total_pages_ge: "1 \<le> total_pages xs"
  by (simp add: total_pages_def)

lemma take_drop_nth:
  "take (b - a) (drop a xs) = map (nth xs) [a ..< min b (length xs)]"
  by (rule nth_equalityI) (auto simp: less_diff_conv add.commute)

lemma paginated_jobs_slice:
  "paginated_jobs xs p =
     map (nth xs) [nat ((current_page xs p - 1) * 20) ..<
                   min (nat ((current_page xs p - 1) * 20 + 20)) (length xs)]"
  by (simp add: paginated_jobs_def slice_def JOBS_PER_PAGE_def Let_def take_drop_nth)

lemma paginated_jobs_take_drop:
  "paginated_jobs xs p = take 20 (drop (nat ((current_page xs p - 1) * 20)) xs)"
proof -
  have "1 \<le> current_page xs p" by (simp add: current_page_def)
  then have "nat ((current_page xs p - 1) * 20 + 20) - nat ((current_page xs p - 1) * 20) = 20"
    by simp
  then show ?thesis
    by (simp add: paginated_jobs_def slice_def JOBS_PER_PAGE_def Let_def)
qed

text \<open>
  C6. For a sequence \<open>xs\<close> and a requested page \<open>p\<close>, with page size 20: the number of
  pages is \<open>max(1, ceil(count / 20))\<close>; the served page is \<open>p\<close> clamped to the range from 1
  to the number of pages; the page items are the elements of \<open>xs\<close> at the positions from
  \<open>(page - 1) * 20\<close> up to, but not including, \<open>(page - 1) * 20 + 20\<close>, as far as they exist.
  The empty sequence has one page, which is empty. With 45 items, page 99 is served as
  page 3 and holds the last 5 items.
\<close>

theorem pagination:
  "total_pages xs = max 1 \<lceil>real (length xs) / 20\<rceil> \<and>
   current_page xs p = (if p < 1 then 1 else if total_pages xs < p then total_pages xs else p) \<and>
   1 \<le> current_page xs p \<and> current_page xs p \<le> total_pages xs \<and>
   paginated_jobs xs p =
     map (nth xs) [nat ((current_page xs p - 1) * 20) ..<
                   min (nat ((current_page xs p - 1) * 20 + 20)) (length xs)] \<and>
   total_pages ([] :: 'a list) = 1 \<and> current_page ([] :: 'a list) p = 1 \<and>
   paginated_jobs ([] :: 'a list) p = [] \<and>
   (length xs = 45 \<longrightarrow>
      total_pages xs = 3 \<and> current_page xs 99 = 3 \<and> paginated_jobs xs 99 = drop 40 xs \<and>
      length (paginated_jobs xs 99) = 5)"
proof -
  have tp: "total_pages xs = max 1 \<lceil>real (length xs) / 20\<rceil>"
    by (simp add: total_pages_def JOBS_PER_PAGE_def)
  have ge: "1 \<le> total_pages xs" by (rule total_pages_ge)
  have cp: "current_page xs p =
      (if p < 1 then 1 else if total_pages xs < p then total_pages xs else p)"
    using ge by (simp add: current_page_def max_def min_def)
  have rng: "1 \<le> current_page xs p \<and> current_page xs p \<le> total_pages xs"
    using ge by (simp add: current_page_def)
  have e1: "total_pages ([] :: 'a list) = 1"
    by (simp add: total_pages_div)
  have e2: "current_page ([] :: 'a list) p = 1"
    by (simp add: current_page_def e1)
  have e3: "paginated_jobs ([] :: 'a list) p = []"
    by (simp add: paginated_jobs_take_drop)
  have ex: "total_pages xs = 3 \<and> current_page xs 99 = 3 \<and> paginated_jobs xs 99 = drop 40 xs \<and>
      length (paginated_jobs xs 99) = 5" if len: "length xs = 45"
  proof -
    have t: "total_pages xs = 3" by (simp add: total_pages_div len)
    have c: "current_page xs 99 = 3" by (simp add: current_page_def t)
    have s: "paginated_jobs xs 99 = drop 40 xs"
      by (simp add: paginated_jobs_take_drop c len)
    show ?thesis using t c s by (simp add: len)
  qed
  from tp cp rng paginated_jobs_slice [of xs p] e1 e2 e3 ex show ?thesis
    by blast
qed

theorem pagination_witness:
  "length [1 ..< 46 :: nat] = 45 \<and> total_pages [1 ..< 46 :: nat] = 3 \<and>
   current_page [1 ..< 46 :: nat] 99 = 3 \<and>
   paginated_jobs [1 ..< 46 :: nat] 99 = [41, 42, 43, 44, 45]"
proof -
  have len: "length [1 ..< 46 :: nat] = 45" by simp
  have d: "drop 40 [1 ..< 46 :: nat] = [41, 42, 43, 44, 45]" by code_simp
  from pagination [of "[1 ..< 46 :: nat]" 99] len
  have "total_pages [1 ..< 46 :: nat] = 3 \<and> current_page [1 ..< 46 :: nat] 99 = 3 \<and>
      paginated_jobs [1 ..< 46 :: nat] 99 = drop 40 [1 ..< 46 :: nat]"
    by blast
  with len d show ?thesis by (simp only:)
qed

subsection \<open>Evaluation of the examples\<close>

lemmas clean_eval = clean_text_def unescape_def BR_RE_def TAG_RE_def split_def splitlines_def
  char_classes matchers

lemma clean_text_title_example:
  "clean_text sample_lib (Some ''<b>Senior</b>  Dev &amp; Ops'') = Inr ''Senior Dev & Ops''"
  by (simp add: clean_eval sample_lib_def)

lemma clean_text_None: "clean_text lib None = Inr []"
  by (simp add: clean_text_def)

lemma clean_text_location_example: "clean_text lib (Some ''Remote'') = Inr ''Remote''"
  by (simp add: clean_eval)

lemma clean_text_salary_example: "clean_text lib (Some ''$20/hr'') = Inr ''$20/hr''"
  by (simp add: clean_eval)

lemma normalize_job_text_example:
  "normalize_job_text sample_lib
     [''title'' \<mapsto> Some ''<b>Senior</b>  Dev &amp; Ops'', ''company'' \<mapsto> None,
      ''location'' \<mapsto> Some ''Remote'', ''salary'' \<mapsto> Some ''$20/hr'',
      ''posted_date'' \<mapsto> Some ''2025-11-05'', ''source'' \<mapsto> Some ''<i>board</i>''] =
   Inr [''title'' \<mapsto> Some ''Senior Dev & Ops'', ''company'' \<mapsto> Some [],
        ''location'' \<mapsto> Some ''Remote'', ''salary'' \<mapsto> Some ''$20/hr'',
        ''posted_date'' \<mapsto> Some ''2025-11-05'', ''source'' \<mapsto> Some ''<i>board</i>'']"
  (is "normalize_job_text sample_lib ?raw = Inr ?f")
proof -
  have "normalize_job_text sample_lib ?raw =
      Inr (?raw(''title'' \<mapsto> Some ''Senior Dev & Ops'', ''company'' \<mapsto> Some [],
        ''location'' \<mapsto> Some ''Remote'', ''salary'' \<mapsto> Some ''$20/hr''))"
    by (simp add: normalize_job_text_def TEXT_KEYS_def clean_text_title_example clean_text_None
        clean_text_location_example clean_text_salary_example)
  also have "?raw(''title'' \<mapsto> Some ''Senior Dev & Ops'', ''company'' \<mapsto> Some [],
      ''location'' \<mapsto> Some ''Remote'', ''salary'' \<mapsto> Some ''$20/hr'') = ?f"
    by (rule ext) simp
  finally show ?thesis .
qed

lemma normalize_job_text_empty: "normalize_job_text lib Map.empty = Inr Map.empty"
  by (simp add: normalize_job_text_def TEXT_KEYS_def)

lemma parse_salary_monthly_hourly:
  "parse_salary_monthly [''salary'' \<mapsto> Some ''$20/hr''] = Inr (Some 3200)"
  by (simp add: parse_salary_monthly_def get_or_empty_def strip_def lower_def skip_salary_def
      any_in_def SALARY_NUM_PRE_def SALARY_NUM_RE_def truediv_def py_float_def int_of_def
      digit_val_def char_classes matchers)

lemma parse_salary_monthly_yearly:
  "parse_salary_monthly [''salary'' \<mapsto> Some ''$60,000/year''] = Inr (Some 5000)"
  by (simp add: parse_salary_monthly_def get_or_empty_def strip_def lower_def skip_salary_def
      any_in_def SALARY_NUM_PRE_def SALARY_NUM_RE_def truediv_def py_float_def int_of_def
      digit_val_def char_classes matchers)

lemma parse_salary_monthly_empty: "parse_salary_monthly Map.empty = Inr None"
  by (simp add: parse_salary_monthly_def get_or_empty_def strip_def)

lemma parse_salary_monthly_example:
  "parse_salary_monthly
     [''title'' \<mapsto> Some ''Senior Dev & Ops'', ''company'' \<mapsto> Some [],
      ''location'' \<mapsto> Some ''Remote'', ''salary'' \<mapsto> Some ''$20/hr'',
      ''posted_date'' \<mapsto> Some ''2025-11-05'', ''source'' \<mapsto> Some ''<i>board</i>''] =
   Inr (Some 3200)"
  by (simp add: parse_salary_monthly_def get_or_empty_def strip_def lower_def skip_salary_def
      any_in_def SALARY_NUM_PRE_def SALARY_NUM_RE_def truediv_def py_float_def int_of_def
      digit_val_def char_classes matchers)

lemma detect_example:
  "detect_arrangement
     [''title'' \<mapsto> Some ''Senior Dev & Ops'', ''company'' \<mapsto> Some [],
      ''location'' \<mapsto> Some ''Remote'', ''salary'' \<mapsto> Some ''$20/hr'',
      ''posted_date'' \<mapsto> Some ''2025-11-05'', ''source'' \<mapsto> Some ''<i>board</i>''] =
     ''remote'' \<and>
   detect_job_type
     [''title'' \<mapsto> Some ''Senior Dev & Ops'', ''company'' \<mapsto> Some [],
      ''location'' \<mapsto> Some ''Remote'', ''salary'' \<mapsto> Some ''$20/hr'',
      ''posted_date'' \<mapsto> Some ''2025-11-05'', ''source'' \<mapsto> Some ''<i>board</i>''] = []"
  by (simp add: detect_arrangement_def detect_job_type_def get_or_empty_def lower_def
      ARRANGEMENT_KEYWORDS_def TYPE_KEYWORDS_def char_classes)

lemma detect_empty: "detect_arrangement Map.empty = [] \<and> detect_job_type Map.empty = []"
  by (simp add: detect_arrangement_def detect_job_type_def get_or_empty_def lower_def
      ARRANGEMENT_KEYWORDS_def TYPE_KEYWORDS_def char_classes)

lemma parse_date_example:
  "parse_date sample_lib
     [''title'' \<mapsto> Some ''Senior Dev & Ops'', ''company'' \<mapsto> Some [],
      ''location'' \<mapsto> Some ''Remote'', ''salary'' \<mapsto> Some ''$20/hr'',
      ''posted_date'' \<mapsto> Some ''2025-11-05'', ''source'' \<mapsto> Some ''<i>board</i>''] =
   Inr (Some (2025, 11, 5, 0, 0, 0, 0))"
  by (simp add: parse_date_def get_or_empty_def strip_def isspace_def sample_lib_def
      replace_tzinfo_None_def)

lemma format_date_example:
  "format_date sample_lib (Some (2025, 11, 5, 0, 0, 0, 0)) = ''Nov 5, 2025''"
  by (simp add: format_date_def sample_lib_def)

lemma format_date_None: "format_date lib None = []"
  by (simp add: format_date_def)

lemma parse_date_no_date: "parse_date lib Map.empty = Inr None"
  by (simp add: parse_date_def get_or_empty_def strip_def)

lemma load_jobs_example:
  "load_jobs sample_lib (Some sample_file) =
     Inr [\<lparr>entries = [''title'' \<mapsto> Some ''Senior Dev & Ops'', ''company'' \<mapsto> Some [],
              ''location'' \<mapsto> Some ''Remote'', ''salary'' \<mapsto> Some ''$20/hr'',
              ''posted_date'' \<mapsto> Some ''2025-11-05'', ''source'' \<mapsto> Some ''<i>board</i>''],
            id_key = 0, arrangement = ''remote'', job_type = [],
            parsed_date = Some (2025, 11, 5, 0, 0, 0, 0), display_date = ''Nov 5, 2025'',
            salary_monthly = Some 3200\<rparr>,
          \<lparr>entries = Map.empty, id_key = 1, arrangement = [], job_type = [],
            parsed_date = None, display_date = [], salary_monthly = None\<rparr>]"
  unfolding load_jobs_def sample_file_def
  by (simp add: load_job_def normalize_job_text_example normalize_job_text_empty
      parse_salary_monthly_example parse_salary_monthly_empty detect_example detect_empty
      parse_date_example parse_date_no_date format_date_example format_date_None)

subsection \<open>Single-record lookup\<close>

lemma load_from_nth:
  "load_from lib idx raws = Inr js \<Longrightarrow>
     length js = length raws \<and>
     (\<forall>k < length raws. load_job lib (idx + k) (raws ! k) = Inr (js ! k))"
proof (induction raws arbitrary: idx js)
  case Nil
  then show ?case by simp
next
  case (Cons raw rest)
  from Cons.prems obtain j js' where
    j: "load_job lib idx raw = Inr j" and
    js': "load_from lib (Suc idx) rest = Inr js'" and
    js: "js = j # js'"
    by (auto split: sum.splits)
  from Cons.IH [OF js'] have
    len: "length js' = length rest" and
    nth: "\<And>k. k < length rest \<Longrightarrow> load_job lib (Suc idx + k) (rest ! k) = Inr (js' ! k)"
    by simp_all
  show ?case
  proof (intro conjI allI impI)
    show "length js = length (raw # rest)" using len js by simp
  next
    fix k assume k: "k < length (raw # rest)"
    show "load_job lib (idx + k) ((raw # rest) ! k) = Inr (js ! k)"
    proof (cases k)
      case 0
      then show ?thesis using j js by simp
    next
      case (Suc m)
      with k have "m < length rest" by simp
      from nth [OF this] show ?thesis using Suc js by simp
    qed
  qed
qed

text \<open>What \<open>load_job\<close> puts into a record that it returns.\<close>

lemma load_job_Inr:
  assumes "load_job lib idx raw = Inr j"
  shows "\<exists>f d m. normalize_job_text lib raw = Inr f \<and> parse_date lib f = Inr d \<and>
           parse_salary_monthly f = Inr m \<and>
           j = \<lparr>entries = f, id_key = idx, arrangement = detect_arrangement f,
                 job_type = detect_job_type f, parsed_date = d,
                 display_date = format_date lib d, salary_monthly = m\<rparr>"
proof -
  from assms obtain f where f: "normalize_job_text lib raw = Inr f"
    by (cases "normalize_job_text lib raw") (simp_all add: load_job_def)
  from assms f obtain d where d: "parse_date lib f = Inr d"
    by (cases "parse_date lib f") (simp_all add: load_job_def)
  from assms f d obtain m where m: "parse_salary_monthly f = Inr m"
    by (cases "parse_salary_monthly f") (simp_all add: load_job_def)
  from assms f d m show ?thesis by (auto simp: load_job_def)
qed

text \<open>
  C8. For a collection of \<open>n\<close> jobs that has been loaded, and every integer \<open>id\<close>: exactly
  when \<open>0 \<le> id < n\<close>, the lookup answers with the normalized record at position \<open>id\<close>.
  That record is made of the record at position \<open>id\<close> of the file: its keys are the
  file's with the text fields cleaned, its \<open>id\<close> is \<open>id\<close>, and its arrangement, job type,
  display date and monthly salary are the ones computed from the cleaned record; the
  parsed date is left out of the answer. Otherwise the lookup answers with the
  not-found outcome, which is different from every answer that carries a record.
\<close>

theorem get_by_id:
  assumes "load_jobs lib file = Inr jobs"
  shows "(0 \<le> i \<and> i < int (length jobs) \<longrightarrow>
            (\<exists>raws f d m. file = Some raws \<and> length raws = length jobs \<and>
               normalize_job_text lib (raws ! nat i) = Inr f \<and>
               parse_date lib f = Inr d \<and> parse_salary_monthly f = Inr m \<and>
               jobs ! nat i =
                 \<lparr>entries = f, id_key = nat i, arrangement = detect_arrangement f,
                  job_type = detect_job_type f, parsed_date = d,
                  display_date = format_date lib d, salary_monthly = m\<rparr> \<and>
               api_job_detail lib file i =
                 Inr (Ok \<lparr>d_entries = f, d_id = nat i, d_arrangement = detect_arrangement f,
                          d_job_type = detect_job_type f, d_display_date = format_date lib d,
                          d_salary_monthly = m\<rparr>))) \<and>
         (\<not> (0 \<le> i \<and> i < int (length jobs)) \<longrightarrow> api_job_detail lib file i = Inr NotFound) \<and>
         ((\<exists>d. api_job_detail lib file i = Inr (Ok d)) \<longleftrightarrow> 0 \<le> i \<and> i < int (length jobs)) \<and>
         (\<forall>d. Ok d \<noteq> NotFound)"
proof -
  have inr: "\<exists>raws f d m. file = Some raws \<and> length raws = length jobs \<and>
      normalize_job_text lib (raws ! nat i) = Inr f \<and>
      parse_date lib f = Inr d \<and> parse_salary_monthly f = Inr m \<and>
      jobs ! nat i =
        \<lparr>entries = f, id_key = nat i, arrangement = detect_arrangement f,
         job_type = detect_job_type f, parsed_date = d,
         display_date = format_date lib d, salary_monthly = m\<rparr> \<and>
      api_job_detail lib file i =
        Inr (Ok \<lparr>d_entries = f, d_id = nat i, d_arrangement = detect_arrangement f,
                 d_job_type = detect_job_type f, d_display_date = format_date lib d,
                 d_salary_monthly = m\<rparr>)"
    if r: "0 \<le> i \<and> i < int (length jobs)"
  proof -
    from r have k: "nat i < length jobs" by linarith
    with assms obtain raws where raws: "file = Some raws"
      by (cases "file") (simp_all add: load_jobs_def)
    with assms have l: "load_from lib 0 raws = Inr jobs" by (simp add: load_jobs_def)
    from load_from_nth [OF l] k have len: "length raws = length jobs"
      and j: "load_job lib (nat i) (raws ! nat i) = Inr (jobs ! nat i)"
      by simp_all
    from load_job_Inr [OF j] obtain f d m where
      f: "normalize_job_text lib (raws ! nat i) = Inr f" and
      d: "parse_date lib f = Inr d" and m: "parse_salary_monthly f = Inr m" and
      eq: "jobs ! nat i =
        \<lparr>entries = f, id_key = nat i, arrangement = detect_arrangement f,
         job_type = detect_job_type f, parsed_date = d,
         display_date = format_date lib d, salary_monthly = m\<rparr>"
      by blast
    have "api_job_detail lib file i = Inr (Ok (job_to_dict (jobs ! nat i)))"
      using assms r by (simp add: api_job_detail_def)
    also have "job_to_dict (jobs ! nat i) =
        \<lparr>d_entries = f, d_id = nat i, d_arrangement = detect_arrangement f,
         d_job_type = detect_job_type f, d_display_date = format_date lib d,
         d_salary_monthly = m\<rparr>"
      unfolding eq by (simp add: job_to_dict_def)
    finally show ?thesis using raws len f d m eq by blast
  qed
  have out: "api_job_detail lib file i = Inr NotFound" if "\<not> (0 \<le> i \<and> i < int (length jobs))"
    using assms that by (simp add: api_job_detail_def)
  show ?thesis
  proof (cases "0 \<le> i \<and> i < int (length jobs)")
    case True
    from inr [OF True] show ?thesis using True by auto
  next
    case False
    from out [OF False] show ?thesis using False by auto
  qed
qed

theorem get_by_id_witness:
  "api_job_detail sample_lib (Some sample_file) 0 =
     Inr (Ok \<lparr>d_entries = [''title'' \<mapsto> Some ''Senior Dev & Ops'', ''company'' \<mapsto> Some [],
                 ''location'' \<mapsto> Some ''Remote'', ''salary'' \<mapsto> Some ''$20/hr'',
                 ''posted_date'' \<mapsto> Some ''2025-11-05'', ''source'' \<mapsto> Some ''<i>board</i>''],
              d_id = 0, d_arrangement = ''remote'', d_job_type = [],
              d_display_date = ''Nov 5, 2025'', d_salary_monthly = Some 3200\<rparr>) \<and>
   api_job_detail sample_lib (Some sample_file) 1 =
     Inr (Ok \<lparr>d_entries = Map.empty, d_id = 1, d_arrangement = [], d_job_type = [],
              d_display_date = [], d_salary_monthly = None\<rparr>) \<and>
   api_job_detail sample_lib (Some sample_file) 2 = Inr NotFound \<and>
   api_job_detail sample_lib (Some sample_file) (- 1) = Inr NotFound"
proof -
  have n0: "normalize_job_text sample_lib (sample_file ! nat 0) =
      Inr [''title'' \<mapsto> Some ''Senior Dev & Ops'', ''company'' \<mapsto> Some [],
           ''location'' \<mapsto> Some ''Remote'', ''salary'' \<mapsto> Some ''$20/hr'',
           ''posted_date'' \<mapsto> Some ''2025-11-05'', ''source'' \<mapsto> Some ''<i>board</i>'']"
    by (simp add: sample_file_def normalize_job_text_example)
  have n1: "normalize_job_text sample_lib (sample_file ! nat 1) = Inr Map.empty"
    by (simp add: sample_file_def normalize_job_text_empty)
  from get_by_id [OF load_jobs_example, of 0] n0
  have 0: "api_job_detail sample_lib (Some sample_file) 0 =
     Inr (Ok \<lparr>d_entries = [''title'' \<mapsto> Some ''Senior Dev & Ops'', ''company'' \<mapsto> Some [],
                 ''location'' \<mapsto> Some ''Remote'', ''salary'' \<mapsto> Some ''$20/hr'',
                 ''posted_date'' \<mapsto> Some ''2025-11-05'', ''source'' \<mapsto> Some ''<i>board</i>''],
              d_id = 0, d_arrangement = ''remote'', d_job_type = [],
              d_display_date = ''Nov 5, 2025'', d_salary_monthly = Some 3200\<rparr>)"
    by (auto simp: parse_date_example parse_salary_monthly_example detect_example
        format_date_example)
  from get_by_id [OF load_jobs_example, of 1] n1
  have 1: "api_job_detail sample_lib (Some sample_file) 1 =
     Inr (Ok \<lparr>d_entries = Map.empty, d_id = 1, d_arrangement = [], d_job_type = [],
              d_display_date = [], d_salary_monthly = None\<rparr>)"
    by (auto simp: parse_date_no_date parse_salary_monthly_empty detect_empty format_date_None)
  from get_by_id [OF load_jobs_example, of 2]
  have 2: "api_job_detail sample_lib (Some sample_file) 2 = Inr NotFound" by simp
  from get_by_id [OF load_jobs_example, of "- 1"]
  have 3: "api_job_detail sample_lib (Some sample_file) (- 1) = Inr NotFound" by simp
  from 0 1 2 3 show ?thesis by (intro conjI)
qed

subsection \<open>Salary Parser\<close>

lemma contains_iff_sublist: "contains kw s \<longleftrightarrow> sublist kw s"
  by (induction s) (simp_all add: sublist_Cons_right)

lemma any_in_iff: "any_in kws low \<longleftrightarrow> (\<exists>kw \<in> set kws. sublist kw low)"
  by (simp add: any_in_def list_ex_iff contains_iff_sublist)

lemma py_float_nonneg: "py_float s = Some x \<Longrightarrow> 0 \<le> x"
  by (auto simp: py_float_def Let_def split: if_splits)

lemma collect_nums_nonneg: "x \<in> set (collect_nums ts) \<Longrightarrow> 0 \<le> x"
  by (induction ts) (auto simp: Let_def py_float_nonneg split: if_splits option.splits)

lemma sum_list_nonneg_rat: "(\<And>x. x \<in> set xs \<Longrightarrow> 0 \<le> x) \<Longrightarrow> 0 \<le> sum_list (xs :: rat list)"
  by (induction xs) auto

lemma truediv_nonempty:
  "nums \<noteq> [] \<Longrightarrow> truediv a (length nums) = Inr (a / of_nat (length nums))"
  by (simp add: truediv_def)

text \<open>
  The branches of \<open>parse_salary_monthly\<close>: without a salary string, with a string of the
  skip list or without a number the result is null; otherwise it is the mean of the
  numbers, converted by the period rule.
\<close>

lemma parse_salary_monthly_cases:
  "parse_salary_monthly job =
     (let raw = strip (get_or_empty job ''salary'');
          nums = collect_nums (re_findall SALARY_NUM_PRE SALARY_NUM_RE raw)
      in if raw = [] \<or> skip_salary (lower raw) \<or> nums = [] then Inr None
         else Inr (Some (spec_period_rule (lower raw) (sum_list nums / of_nat (length nums)))))"
  unfolding parse_salary_monthly_def spec_period_rule_def Let_def any_in_iff
  by (simp add: truediv_nonempty)

text \<open>
  C10. For every job record the salary parser returns either null or a number that is
  not negative. The bracket \<open>under500\<close> has the lower bound 0, so it never excludes a
  parsed salary for lying below its lower bound.
\<close>

theorem parse_salary_monthly_nonneg:
  "parse_salary_monthly job = Inr None \<or>
   (\<exists>v lo hi. parse_salary_monthly job = Inr (Some v) \<and> 0 \<le> v \<and>
      subscript SALARY_RANGES ''under500'' = Inr (lo, hi) \<and> lo \<le> v)"
proof -
  define raw where "raw = strip (get_or_empty job ''salary'')"
  define nums where "nums = collect_nums (re_findall SALARY_NUM_PRE SALARY_NUM_RE raw)"
  define avg where "avg = sum_list nums / of_nat (length nums)"
  have "0 \<le> sum_list nums"
    unfolding nums_def by (rule sum_list_nonneg_rat) (rule collect_nums_nonneg)
  then have avg: "0 \<le> avg" by (simp add: avg_def)
  then have rule: "0 \<le> spec_period_rule (lower raw) avg"
    by (simp add: spec_period_rule_def)
  have br: "subscript SALARY_RANGES ''under500'' = Inr (0, Finite 500)"
    by (simp add: subscript_def SALARY_RANGES_def)
  show ?thesis
  proof (cases "raw = [] \<or> skip_salary (lower raw) \<or> nums = []")
    case True
    then show ?thesis
      by (simp add: parse_salary_monthly_cases Let_def raw_def nums_def)
  next
    case False
    then have "parse_salary_monthly job = Inr (Some (spec_period_rule (lower raw) avg))"
      by (simp add: parse_salary_monthly_cases Let_def raw_def nums_def avg_def)
    with rule br show ?thesis by blast
  qed
qed

subsection \<open>Filter and Sort Engine\<close>

lemma in_keys_iff: "k \<in> fst ` set SALARY_RANGES \<longleftrightarrow> map_of SALARY_RANGES k \<noteq> None"
  by (simp add: map_of_eq_None_iff)

lemma stage_fold:
  "(if b then new_list (filter p (h ! f)) h else (f, h)) = stage b p (f, h)"
  by (simp add: stage_def)

lemma search_stage_fold:
  "(if b then (let q = s in new_list (filter (P q) (h ! f)) h) else (f, h)) = stage b (P s) (f, h)"
  by (simp add: stage_def)

lemma salary_stage_fold:
  "(if salary_filter c \<noteq> [] \<and> salary_filter c \<in> fst ` set SALARY_RANGES
    then (case subscript SALARY_RANGES (salary_filter c) of
            Inl e \<Rightarrow> Inl e
          | Inr (lo, hi) \<Rightarrow> Inr (new_list (filter (salary_ok lo hi) (h ! f)) h))
    else Inr (f, h)) = Inr (stage (salary_applies c) (salary_pred c) (f, h))"
  unfolding in_keys_iff
  by (auto simp: stage_def salary_applies_def salary_pred_def subscript_def)

lemma sort_fold:
  "(if s = ''oldest'' then list_sort k False f h else list_sort k True f h) =
     list_sort k (s \<noteq> ''oldest'') f h"
  by simp

lemma apply_filters_stages:
  "apply_filters h jobs c =
     Inr (let fh = stage (search_query c \<noteq> []) (search_ok (lower (search_query c)))
                (stage (salary_applies c) (salary_pred c)
                (stage (job_type_filter c \<noteq> []) (job_type_ok c)
                (stage (arrangement_filter c \<noteq> []) (arrangement_ok c)
                (stage (category_filter c \<noteq> []) (category_ok c)
                (stage (source_filter c \<noteq> []) (source_ok c) (jobs, h))))))
          in (fst fh, list_sort sort_key_of (sort_by c \<noteq> ''oldest'') (fst fh) (snd fh)))"
  unfolding apply_filters_def
  apply (simp only: stage_fold search_stage_fold salary_stage_fold sort_fold)
  apply (simp only: Let_def split_beta sum.case fst_conv snd_conv prod.collapse)
  done

lemma reach_init: "jobs < length h \<Longrightarrow> reach h jobs (h ! jobs) False (jobs, h)"
  by (simp add: reach_def)

lemma reach_stage:
  assumes "reach h jobs xs fresh fh"
  shows "reach h jobs (if b then filter p xs else xs) (fresh \<or> b) (stage b p fh)"
proof (cases b)
  case False
  with assms show ?thesis by (simp add: stage_def)
next
  case True
  from assms have "snd fh ! fst fh = xs" "take (length h) (snd fh) = h"
    "length h \<le> length (snd fh)"
    by (simp_all add: reach_def)
  with True show ?thesis
    by (simp add: stage_def new_list_def reach_def nth_append)
qed

lemma if_filter:
  "(if b then filter p (filter q xs) else filter q xs) = filter (\<lambda>j. q j \<and> (b \<longrightarrow> p j)) xs"
  by simp

lemma reach_all:
  assumes "jobs < length h"
  shows "reach h jobs (filter (keeps c) (h ! jobs)) (copies c)
           (stage (search_query c \<noteq> []) (search_ok (lower (search_query c)))
           (stage (salary_applies c) (salary_pred c)
           (stage (job_type_filter c \<noteq> []) (job_type_ok c)
           (stage (arrangement_filter c \<noteq> []) (arrangement_ok c)
           (stage (category_filter c \<noteq> []) (category_ok c)
           (stage (source_filter c \<noteq> []) (source_ok c) (jobs, h)))))))"
proof -
  let ?b1 = "source_filter c \<noteq> []" and ?b2 = "category_filter c \<noteq> []"
    and ?b3 = "arrangement_filter c \<noteq> []" and ?b4 = "job_type_filter c \<noteq> []"
    and ?b5 = "salary_applies c" and ?b6 = "search_query c \<noteq> []"
  let ?x1 = "if ?b1 then filter (source_ok c) (h ! jobs) else h ! jobs"
  let ?x2 = "if ?b2 then filter (category_ok c) ?x1 else ?x1"
  let ?x3 = "if ?b3 then filter (arrangement_ok c) ?x2 else ?x2"
  let ?x4 = "if ?b4 then filter (job_type_ok c) ?x3 else ?x3"
  let ?x5 = "if ?b5 then filter (salary_pred c) ?x4 else ?x4"
  let ?x6 = "if ?b6 then filter (search_ok (lower (search_query c))) ?x5 else ?x5"
  let ?q1 = "\<lambda>j. True \<and> (?b1 \<longrightarrow> source_ok c j)"
  let ?q2 = "\<lambda>j. ?q1 j \<and> (?b2 \<longrightarrow> category_ok c j)"
  let ?q3 = "\<lambda>j. ?q2 j \<and> (?b3 \<longrightarrow> arrangement_ok c j)"
  let ?q4 = "\<lambda>j. ?q3 j \<and> (?b4 \<longrightarrow> job_type_ok c j)"
  let ?q5 = "\<lambda>j. ?q4 j \<and> (?b5 \<longrightarrow> salary_pred c j)"
  let ?q6 = "\<lambda>j. ?q5 j \<and> (?b6 \<longrightarrow> search_ok (lower (search_query c)) j)"
  have x0: "h ! jobs = filter (\<lambda>j. True) (h ! jobs)" by simp
  have x1: "?x1 = filter ?q1 (h ! jobs)" by (subst (1 2) x0) (rule if_filter)
  have x2: "?x2 = filter ?q2 (h ! jobs)" unfolding x1 by (rule if_filter)
  have x3: "?x3 = filter ?q3 (h ! jobs)" unfolding x2 by (rule if_filter)
  have x4: "?x4 = filter ?q4 (h ! jobs)" unfolding x3 by (rule if_filter)
  have x5: "?x5 = filter ?q5 (h ! jobs)" unfolding x4 by (rule if_filter)
  have x6: "?x6 = filter ?q6 (h ! jobs)" unfolding x5 by (rule if_filter)
  have "filter ?q6 (h ! jobs) = filter (keeps c) (h ! jobs)"
    by (rule filter_cong [OF refl]) (auto simp: keeps_def)
  with x6 have x: "?x6 = filter (keeps c) (h ! jobs)" by simp
  have f: "((((((False \<or> ?b1) \<or> ?b2) \<or> ?b3) \<or> ?b4) \<or> ?b5) \<or> ?b6) = copies c"
    by (auto simp: copies_def)
  let ?s1 = "stage ?b1 (source_ok c) (jobs, h)"
  let ?s2 = "stage ?b2 (category_ok c) ?s1"
  let ?s3 = "stage ?b3 (arrangement_ok c) ?s2"
  let ?s4 = "stage ?b4 (job_type_ok c) ?s3"
  let ?s5 = "stage ?b5 (salary_pred c) ?s4"
  let ?s6 = "stage ?b6 (search_ok (lower (search_query c))) ?s5"
  have r1: "reach h jobs ?x1 (False \<or> ?b1) ?s1"
    by (rule reach_stage [OF reach_init [OF assms]])
  have r2: "reach h jobs ?x2 ((False \<or> ?b1) \<or> ?b2) ?s2"
    by (rule reach_stage [OF r1])
  have r3: "reach h jobs ?x3 (((False \<or> ?b1) \<or> ?b2) \<or> ?b3) ?s3"
    by (rule reach_stage [OF r2])
  have r4: "reach h jobs ?x4 ((((False \<or> ?b1) \<or> ?b2) \<or> ?b3) \<or> ?b4) ?s4"
    by (rule reach_stage [OF r3])
  have r5: "reach h jobs ?x5 (((((False \<or> ?b1) \<or> ?b2) \<or> ?b3) \<or> ?b4) \<or> ?b5) ?s5"
    by (rule reach_stage [OF r4])
  have r6: "reach h jobs ?x6 ((((((False \<or> ?b1) \<or> ?b2) \<or> ?b3) \<or> ?b4) \<or> ?b5) \<or> ?b6) ?s6"
    by (rule reach_stage [OF r5])
  from r6 show ?thesis unfolding x f .
qed

lemma apply_filters_result:
  assumes "jobs < length h"
  shows "\<exists>r h'. apply_filters h jobs c = Inr (r, h') \<and> r < length h' \<and>
           h' ! r = ordered c (filter (keeps c) (h ! jobs)) \<and>
           (if copies c then length h \<le> r \<and> take (length h) h' = h
            else r = jobs \<and> h' = h[jobs := ordered c (h ! jobs)])"
proof -
  define fh where "fh = stage (search_query c \<noteq> []) (search_ok (lower (search_query c)))
           (stage (salary_applies c) (salary_pred c)
           (stage (job_type_filter c \<noteq> []) (job_type_ok c)
           (stage (arrangement_filter c \<noteq> []) (arrangement_ok c)
           (stage (category_filter c \<noteq> []) (category_ok c)
           (stage (source_filter c \<noteq> []) (source_ok c) (jobs, h))))))"
  let ?h' = "list_sort sort_key_of (sort_by c \<noteq> ''oldest'') (fst fh) (snd fh)"
  have ap: "apply_filters h jobs c = Inr (fst fh, ?h')"
    by (simp add: apply_filters_stages fh_def Let_def)
  from reach_all [OF assms, of c] have r: "reach h jobs (filter (keeps c) (h ! jobs)) (copies c) fh"
    by (simp add: fh_def)
  then have lt: "fst fh < length (snd fh)" and
    xs: "snd fh ! fst fh = filter (keeps c) (h ! jobs)" and
    tk: "take (length h) (snd fh) = h" and
    al: "if copies c then length h \<le> fst fh else fst fh = jobs \<and> snd fh = h"
    by (simp_all add: reach_def)
  have srt: "?h' = (snd fh)[fst fh := ordered c (snd fh ! fst fh)]"
    by (simp add: list_sort_def ordered_def)
  have 1: "fst fh < length ?h'" using lt by (simp add: srt)
  have 2: "?h' ! fst fh = ordered c (filter (keeps c) (h ! jobs))"
    using lt xs by (simp add: srt)
  have 3: "if copies c then length h \<le> fst fh \<and> take (length h) ?h' = h
     else fst fh = jobs \<and> ?h' = h[jobs := ordered c (h ! jobs)]"
  proof (cases "copies c")
    case True
    with al have "length h \<le> fst fh" by simp
    with tk True show ?thesis by (simp add: srt take_update_cancel)
  next
    case False
    with al have "fst fh = jobs" "snd fh = h" by simp_all
    with False srt show ?thesis by simp
  qed
  from ap 1 2 3 show ?thesis by blast
qed

lemma filter_ordered: "filter P (ordered c xs) = ordered c (filter P xs)"
proof -
  have "filter P (rev (sort_key sort_key_of (rev xs))) =
      rev (filter P (sort_key sort_key_of (rev xs)))"
    by (simp add: rev_filter)
  also have "\<dots> = rev (sort_key sort_key_of (filter P (rev xs)))"
    by (simp only: filter_sort)
  also have "\<dots> = rev (sort_key sort_key_of (rev (filter P xs)))"
    by (simp add: rev_filter)
  finally show ?thesis by (simp add: ordered_def filter_sort)
qed

lemma ordered_stable:
  "filter (\<lambda>j. sort_key_of j = d) (ordered c xs) = filter (\<lambda>j. sort_key_of j = d) xs"
proof (cases "sort_by c = ''oldest''")
  case True
  then show ?thesis by (simp add: ordered_def sort_key_stable)
next
  case False
  have "filter (\<lambda>j. sort_key_of j = d) (rev (sort_key sort_key_of (rev xs))) =
      rev (filter (\<lambda>j. sort_key_of j = d) (sort_key sort_key_of (rev xs)))"
    by (simp add: rev_filter)
  also have "\<dots> = rev (filter (\<lambda>j. sort_key_of j = d) (rev xs))"
    by (simp only: sort_key_stable)
  also have "\<dots> = filter (\<lambda>j. sort_key_of j = d) xs"
    by (simp add: rev_filter)
  finally show ?thesis using False by (simp add: ordered_def)
qed

lemma ordered_sorted:
  "if sort_by c = ''oldest'' then sorted (map sort_key_of (ordered c xs))
   else sorted (rev (map sort_key_of (ordered c xs)))"
  by (simp add: ordered_def rev_map)

lemma salary_ranges_lookup:
  "(k, lo, hi) \<in> set SALARY_RANGES \<Longrightarrow> k \<noteq> [] \<and> map_of SALARY_RANGES k = Some (lo, hi)"
  by (auto simp: SALARY_RANGES_def)

lemma salary_ok_iff:
  "salary_ok lo hi j \<longleftrightarrow> (\<exists>v. salary_monthly j = Some v \<and> lo \<le> v \<and> below v hi)"
  by (simp add: salary_ok_def split: option.splits)

lemma keeps_salary:
  "keeps (c\<lparr>salary_filter := k\<rparr>) j \<longleftrightarrow>
     keeps (c\<lparr>salary_filter := []\<rparr>) j \<and>
     (salary_applies (c\<lparr>salary_filter := k\<rparr>) \<longrightarrow> salary_pred (c\<lparr>salary_filter := k\<rparr>) j)"
  by (auto simp: keeps_def salary_applies_def source_ok_def category_ok_def arrangement_ok_def
      job_type_ok_def)

lemmas filter_eval = apply_filters_stages stage_def new_list_def list_sort_def salary_applies_def
  salary_pred_def SALARY_RANGES_def salary_ok_def below_def sort_key_of_def no_criteria_def
  blank_job_def datetime_min_def Let_def

lemma three_salaries:
  "apply_filters
     [[(blank_job 0 None)\<lparr>salary_monthly := Some 300\<rparr>,
       (blank_job 1 None)\<lparr>salary_monthly := Some 700\<rparr>, blank_job 2 None]] 0
     (no_criteria\<lparr>salary_filter := []\<rparr>) =
   Inr (0, [[(blank_job 0 None)\<lparr>salary_monthly := Some 300\<rparr>,
             (blank_job 1 None)\<lparr>salary_monthly := Some 700\<rparr>, blank_job 2 None]])"
  by (simp add: filter_eval)

lemma four_jobs_selected:
  "filter (\<lambda>j. sort_key_of j = datetime_min)
     (filter (keeps no_criteria)
       [blank_job 0 None, blank_job 1 (Some (2025, 1, 1, 0, 0, 0, 0)), blank_job 2 None,
        blank_job 3 (Some (2026, 2, 3, 0, 0, 0, 0))]) = [blank_job 0 None, blank_job 2 None]"
  by (simp add: keeps_def salary_applies_def sort_key_of_def no_criteria_def blank_job_def
      datetime_min_def)

text \<open>
  C7. For every job list, which the caller holds at \<open>jobs\<close> in the store: when the
  salary criterion names one of the five brackets of \<open>SALARY_RANGES\<close>, with range
  \<open>[lo, hi)\<close>, the result is the result without the salary criterion restricted to the
  jobs whose \<open>_salary_monthly\<close> is not null and lies in the range (so a job is kept if and
  only if the other criteria keep it and its salary is in the range); when it names a
  key that is not in the table, the result is the one without the salary criterion. In
  both cases the call returns, without raising.
\<close>

theorem salary_bracket_filter:
  assumes "jobs < length h"
  shows "\<exists>r h' r0 h0.
           apply_filters h jobs (c\<lparr>salary_filter := k\<rparr>) = Inr (r, h') \<and>
           apply_filters h jobs (c\<lparr>salary_filter := []\<rparr>) = Inr (r0, h0) \<and>
           (\<forall>lo hi. (k, lo, hi) \<in> set SALARY_RANGES \<longrightarrow>
              h' ! r = filter (\<lambda>j. \<exists>v. salary_monthly j = Some v \<and> lo \<le> v \<and> below v hi) (h0 ! r0)) \<and>
           (k \<notin> fst ` set SALARY_RANGES \<longrightarrow> h' ! r = h0 ! r0)"
proof -
  let ?c1 = "c\<lparr>salary_filter := k\<rparr>" and ?c0 = "c\<lparr>salary_filter := []\<rparr>"
  from apply_filters_result [OF assms, of ?c1] obtain r h' where
    a1: "apply_filters h jobs ?c1 = Inr (r, h')" and
    r1: "h' ! r = ordered ?c1 (filter (keeps ?c1) (h ! jobs))"
    by blast
  from apply_filters_result [OF assms, of ?c0] obtain r0 h0 where
    a0: "apply_filters h jobs ?c0 = Inr (r0, h0)" and
    r0: "h0 ! r0 = ordered ?c0 (filter (keeps ?c0) (h ! jobs))"
    by blast
  have ord: "ordered ?c1 = ordered ?c0"
    by (rule ext) (simp add: ordered_def)
  have split: "filter (keeps ?c1) (h ! jobs) =
      filter (\<lambda>j. salary_applies ?c1 \<longrightarrow> salary_pred ?c1 j) (filter (keeps ?c0) (h ! jobs))"
    unfolding filter_filter
    by (rule filter_cong [OF refl], subst keeps_salary) (simp add: conj_commute)
  have res: "h' ! r = filter (\<lambda>j. salary_applies ?c1 \<longrightarrow> salary_pred ?c1 j) (h0 ! r0)"
    by (simp only: r1 r0 ord split filter_ordered)
  have known: "h' ! r = filter (\<lambda>j. \<exists>v. salary_monthly j = Some v \<and> lo \<le> v \<and> below v hi) (h0 ! r0)"
    if "(k, lo, hi) \<in> set SALARY_RANGES" for lo hi
  proof -
    from salary_ranges_lookup [OF that] have "salary_applies ?c1" "salary_pred ?c1 = salary_ok lo hi"
      by (simp_all add: salary_applies_def salary_pred_def)
    with res show ?thesis by (simp add: salary_ok_iff)
  qed
  have unknown: "h' ! r = h0 ! r0" if "k \<notin> fst ` set SALARY_RANGES"
  proof -
    from that have "\<not> salary_applies ?c1"
      by (simp add: salary_applies_def in_keys_iff)
    with res show ?thesis by simp
  qed
  from a1 a0 known unknown show ?thesis by blast
qed

theorem salary_bracket_filter_witness:
  "(\<exists>r h'. apply_filters
       [[(blank_job 0 None)\<lparr>salary_monthly := Some 300\<rparr>,
         (blank_job 1 None)\<lparr>salary_monthly := Some 700\<rparr>, blank_job 2 None]] 0
       (no_criteria\<lparr>salary_filter := ''under500''\<rparr>) = Inr (r, h') \<and>
     h' ! r = [(blank_job 0 None)\<lparr>salary_monthly := Some 300\<rparr>]) \<and>
   (\<exists>r h'. apply_filters
       [[(blank_job 0 None)\<lparr>salary_monthly := Some 300\<rparr>,
         (blank_job 1 None)\<lparr>salary_monthly := Some 700\<rparr>, blank_job 2 None]] 0
       (no_criteria\<lparr>salary_filter := ''under5000''\<rparr>) = Inr (r, h') \<and>
     h' ! r = [(blank_job 0 None)\<lparr>salary_monthly := Some 300\<rparr>,
       (blank_job 1 None)\<lparr>salary_monthly := Some 700\<rparr>, blank_job 2 None])"
proof -
  let ?a = "(blank_job 0 None)\<lparr>salary_monthly := Some 300\<rparr>"
  let ?b = "(blank_job 1 None)\<lparr>salary_monthly := Some 700\<rparr>"
  let ?c = "blank_job 2 None"
  have lt: "0 < length [[?a, ?b, ?c]]" by simp
  have known: "(''under500'', 0, Finite 500) \<in> set SALARY_RANGES"
    by (simp add: SALARY_RANGES_def)
  have unknown: "''under5000'' \<notin> fst ` set SALARY_RANGES"
    by (simp add: SALARY_RANGES_def)
  have sel: "filter (\<lambda>j. \<exists>v. salary_monthly j = Some v \<and> 0 \<le> v \<and> below v (Finite 500))
      [?a, ?b, ?c] = [?a]"
    by (simp add: blank_job_def below_def)
  from salary_bracket_filter [OF lt, where c = no_criteria and k = "''under500''"] three_salaries known
  have "\<exists>r h'. apply_filters [[?a, ?b, ?c]] 0 (no_criteria\<lparr>salary_filter := ''under500''\<rparr>) =
      Inr (r, h') \<and>
      h' ! r = filter (\<lambda>j. \<exists>v. salary_monthly j = Some v \<and> 0 \<le> v \<and> below v (Finite 500))
        [?a, ?b, ?c]"
    by fastforce
  then have 1: "\<exists>r h'. apply_filters [[?a, ?b, ?c]] 0
      (no_criteria\<lparr>salary_filter := ''under500''\<rparr>) = Inr (r, h') \<and> h' ! r = [?a]"
    by (simp only: sel)
  from salary_bracket_filter [OF lt, where c = no_criteria and k = "''under5000''"] three_salaries unknown
  have 2: "\<exists>r h'. apply_filters [[?a, ?b, ?c]] 0
      (no_criteria\<lparr>salary_filter := ''under5000''\<rparr>) = Inr (r, h') \<and> h' ! r = [?a, ?b, ?c]"
    by fastforce
  from 1 2 show ?thesis by (rule conjI)
qed

text \<open>
  C4, as amended. For every job list and every choice of criteria, under the default
  newest-first order and under \<open>sort=oldest\<close> alike, the jobs of the result whose sort key
  is \<open>d\<close> are the selected jobs of the input with that key in their original relative
  order, for every key \<open>d\<close> (a null \<open>_parsed_date\<close> has the key \<open>datetime.min\<close>); the result
  is ascending by key under \<open>sort=oldest\<close> and descending otherwise.
\<close>

theorem sort_ties_keep_order:
  assumes "jobs < length h"
  shows "\<exists>r h'. apply_filters h jobs c = Inr (r, h') \<and>
           (\<forall>d. filter (\<lambda>j. sort_key_of j = d) (h' ! r) =
                 filter (\<lambda>j. sort_key_of j = d) (filter (keeps c) (h ! jobs))) \<and>
           (if sort_by c = ''oldest'' then sorted (map sort_key_of (h' ! r))
            else sorted (rev (map sort_key_of (h' ! r))))"
proof -
  from apply_filters_result [OF assms, of c] obtain r h' where
    a: "apply_filters h jobs c = Inr (r, h')" and
    r: "h' ! r = ordered c (filter (keeps c) (h ! jobs))"
    by blast
  have st: "filter (\<lambda>j. sort_key_of j = d) (h' ! r) =
      filter (\<lambda>j. sort_key_of j = d) (filter (keeps c) (h ! jobs))" for d
    unfolding r by (rule ordered_stable)
  have so: "if sort_by c = ''oldest'' then sorted (map sort_key_of (h' ! r))
      else sorted (rev (map sort_key_of (h' ! r)))"
    unfolding r by (rule ordered_sorted)
  from a st so show ?thesis by blast
qed

theorem sort_ties_keep_order_witness:
  "(\<exists>r h'. apply_filters
       [[blank_job 0 None, blank_job 1 (Some (2025, 1, 1, 0, 0, 0, 0)), blank_job 2 None,
         blank_job 3 (Some (2026, 2, 3, 0, 0, 0, 0))]] 0 no_criteria = Inr (r, h') \<and>
     filter (\<lambda>j. sort_key_of j = datetime_min) (h' ! r) = [blank_job 0 None, blank_job 2 None]) \<and>
   (\<exists>r h'. apply_filters
       [[blank_job 0 None, blank_job 1 (Some (2025, 1, 1, 0, 0, 0, 0)), blank_job 2 None,
         blank_job 3 (Some (2026, 2, 3, 0, 0, 0, 0))]] 0 (no_criteria\<lparr>sort_by := ''oldest''\<rparr>) =
       Inr (r, h') \<and>
     filter (\<lambda>j. sort_key_of j = datetime_min) (h' ! r) = [blank_job 0 None, blank_job 2 None])"
proof -
  let ?xs = "[blank_job 0 None, blank_job 1 (Some (2025, 1, 1, 0, 0, 0, 0)), blank_job 2 None,
    blank_job 3 (Some (2026, 2, 3, 0, 0, 0, 0))]"
  have lt: "0 < length [?xs]" by simp
  have k: "keeps (no_criteria\<lparr>sort_by := ''oldest''\<rparr>) = keeps no_criteria"
    by (rule ext) (simp add: keeps_def salary_applies_def no_criteria_def)
  from sort_ties_keep_order [OF lt, where c = no_criteria] obtain r h' where
    "apply_filters [?xs] 0 no_criteria = Inr (r, h')" and
    "filter (\<lambda>j. sort_key_of j = datetime_min) (h' ! r) =
       filter (\<lambda>j. sort_key_of j = datetime_min) (filter (keeps no_criteria) ([?xs] ! 0))"
    by blast
  then have 1: "\<exists>r h'. apply_filters [?xs] 0 no_criteria = Inr (r, h') \<and>
      filter (\<lambda>j. sort_key_of j = datetime_min) (h' ! r) = [blank_job 0 None, blank_job 2 None]"
    by (simp only: nth_Cons_0 four_jobs_selected) blast
  from sort_ties_keep_order [OF lt, where c = "no_criteria\<lparr>sort_by := ''oldest''\<rparr>"]
  obtain r h' where
    "apply_filters [?xs] 0 (no_criteria\<lparr>sort_by := ''oldest''\<rparr>) = Inr (r, h')" and
    "filter (\<lambda>j. sort_key_of j = datetime_min) (h' ! r) =
       filter (\<lambda>j. sort_key_of j = datetime_min)
         (filter (keeps (no_criteria\<lparr>sort_by := ''oldest''\<rparr>)) ([?xs] ! 0))"
    by blast
  then have 2: "\<exists>r h'. apply_filters [?xs] 0 (no_criteria\<lparr>sort_by := ''oldest''\<rparr>) =
      Inr (r, h') \<and>
      filter (\<lambda>j. sort_key_of j = datetime_min) (h' ! r) = [blank_job 0 None, blank_job 2 None]"
    by (simp only: nth_Cons_0 k four_jobs_selected) blast
  from 1 2 show ?thesis by (rule conjI)
qed

text \<open>
  The claim C4 as it is stated fails: it says that \<open>sort=oldest\<close> reverses the relative
  order of jobs whose keys tie. Two jobs without a date, sorted with \<open>sort=oldest\<close>, come
  back in their original order.
\<close>

theorem oldest_ties_not_reversed:
  "apply_filters [[blank_job 0 None, blank_job 1 None]] 0 (no_criteria\<lparr>sort_by := ''oldest''\<rparr>) =
     Inr (0, [[blank_job 0 None, blank_job 1 None]]) \<and>
   sort_key_of (blank_job 0 None) = sort_key_of (blank_job 1 None) \<and>
   [blank_job 0 None, blank_job 1 None] \<noteq> rev [blank_job 0 None, blank_job 1 None]"
  by (simp add: filter_eval)

text \<open>
  C3. The claim: after the call the input sequence is left in its original order, the
  reordering being visible only in the returned sequence. The code: without an applied
  criterion \<open>filtered\<close> is still the caller's list when \<open>filtered.sort\<close> runs, so the
  caller's list itself is sorted (first part); as soon as one criterion is applied the
  sort acts on a new list and the caller's list keeps its order (second part). The
  general statement is \<open>apply_filters_result\<close>.
\<close>

theorem apply_filters_sorts_input:
  "apply_filters [[blank_job 0 None, blank_job 1 (Some (2026, 2, 3, 0, 0, 0, 0))]] 0 no_criteria =
     Inr (0, [[blank_job 1 (Some (2026, 2, 3, 0, 0, 0, 0)), blank_job 0 None]]) \<and>
   apply_filters [[blank_job 0 None, blank_job 1 (Some (2026, 2, 3, 0, 0, 0, 0))]] 0
     (no_criteria\<lparr>arrangement_filter := ''remote''\<rparr>) =
     Inr (1, [[blank_job 0 None, blank_job 1 (Some (2026, 2, 3, 0, 0, 0, 0))], []])"
  by (simp add: filter_eval arrangement_ok_def)

subsection \<open>Idempotence of the Text Normalizer\<close>

lemma TAG_RE_Nil: "TAG_RE [] = None"
  by (simp add: TAG_RE_def lit_def)

lemma TAG_RE_Cons:
  "TAG_RE (c # cs) =
     (if c = CHR ''<'' then
        (case cs of [] \<Rightarrow> None
         | d # ds \<Rightarrow> if d \<noteq> CHR ''>'' then lit (ch (CHR ''>'')) (dropWhile (\<lambda>c. c \<noteq> CHR ''>'') ds) else None)
      else None)"
  by (simp add: TAG_RE_def lit_def plus_def ch_def split: list.split)

lemma lit_ch_Some: "lit (ch x) t = Some r \<longleftrightarrow> t = x # r"
  by (cases t) (auto simp: lit_def ch_def)

lemma lit_dropWhile_None:
  "lit (ch x) (dropWhile (\<lambda>c. c \<noteq> x) ds) = None \<longleftrightarrow> x \<notin> set ds"
proof (induction ds)
  case Nil
  show ?case by (simp add: lit_def)
next
  case (Cons d ds)
  show ?case
  proof (cases "d = x")
    case True
    then show ?thesis by (simp add: lit_def ch_def)
  next
    case False
    with Cons show ?thesis by simp
  qed
qed

lemma TAG_RE_lt_None:
  "TAG_RE (CHR ''<'' # cs) = None \<longleftrightarrow>
     cs = [] \<or> hd cs = CHR ''>'' \<or> CHR ''>'' \<notin> set (tl cs)"
  by (cases cs) (simp_all add: TAG_RE_Cons lit_dropWhile_None)

lemma TAG_RE_no_gt: "CHR ''>'' \<notin> set s \<Longrightarrow> TAG_RE s = None"
proof (cases s)
  case Nil
  then show ?thesis by (simp add: TAG_RE_Nil)
next
  case (Cons c cs)
  assume "CHR ''>'' \<notin> set s"
  with Cons show ?thesis
    by (cases cs) (simp_all add: TAG_RE_Cons lit_dropWhile_None)
qed

lemma TAG_RE_not_lt: "c \<noteq> CHR ''<'' \<Longrightarrow> TAG_RE (c # cs) = None"
  by (simp add: TAG_RE_Cons)

lemma TAG_RE_Some_shorter: "TAG_RE s = Some r \<Longrightarrow> length r < length s"
proof (cases s)
  case Nil
  assume "TAG_RE s = Some r"
  with Nil show ?thesis by (simp add: TAG_RE_Nil)
next
  case (Cons c cs)
  assume a: "TAG_RE s = Some r"
  show ?thesis
  proof (cases cs)
    case Nil
    with a Cons show ?thesis by (simp add: TAG_RE_Cons split: if_splits)
  next
    case (Cons d ds)
    with a \<open>s = c # cs\<close> have "dropWhile (\<lambda>c. c \<noteq> CHR ''>'') ds = CHR ''>'' # r"
      by (simp add: TAG_RE_Cons lit_ch_Some split: if_splits)
    moreover have "length (dropWhile (\<lambda>c. c \<noteq> CHR ''>'') ds) \<le> length ds"
      by (rule length_dropWhile_le)
    ultimately show ?thesis using Cons \<open>s = c # cs\<close> by simp
  qed
qed

lemma match_len_TAG_RE_0: "match_len TAG_RE s = 0 \<longleftrightarrow> TAG_RE s = None"
proof (cases "TAG_RE s")
  case None
  then show ?thesis by (simp add: match_len_def)
next
  case (Some r)
  from TAG_RE_Some_shorter [OF this] Some show ?thesis by (simp add: match_len_def)
qed

lemma re_sub_tagfree: "tagfree s \<Longrightarrow> re_sub TAG_RE repl s = s"
  by (induction s) (simp_all add: match_len_TAG_RE_0 [THEN iffD2])

lemma tagfree_no_gt: "CHR ''>'' \<notin> set s \<Longrightarrow> tagfree s"
  by (induction s) (simp_all add: TAG_RE_no_gt)

lemma re_sub_Cons_None:
  "TAG_RE (c # cs) = None \<Longrightarrow> re_sub TAG_RE repl (c # cs) = c # re_sub TAG_RE repl cs"
  by (simp add: match_len_TAG_RE_0 [THEN iffD2])

lemma re_sub_Cons_Some:
  "TAG_RE (c # cs) = Some r \<Longrightarrow>
     re_sub TAG_RE repl (c # cs) =
       repl (take (length (c # cs) - length r) (c # cs)) @
       re_sub TAG_RE repl (drop (length (c # cs) - length r) (c # cs))"
proof -
  assume a: "TAG_RE (c # cs) = Some r"
  then have "match_len TAG_RE (c # cs) = length (c # cs) - length r"
    by (simp add: match_len_def)
  moreover from TAG_RE_Some_shorter [OF a] have "length (c # cs) - length r \<noteq> 0"
    by simp
  ultimately show ?thesis by (simp add: Let_def)
qed

lemma tagfree_re_sub: "tagfree (re_sub TAG_RE (\<lambda>m. '' '') s)"
proof (induction "length s" arbitrary: s rule: less_induct)
  case less
  show ?case
  proof (cases s)
    case Nil
    then show ?thesis by simp
  next
    case (Cons c cs)
    show ?thesis
    proof (cases "TAG_RE (c # cs)")
      case (Some r)
      let ?n = "length (c # cs) - length r"
      from TAG_RE_Some_shorter [OF Some] have "length (drop ?n (c # cs)) < length s"
        using Cons by simp
      then have "tagfree (re_sub TAG_RE (\<lambda>m. '' '') (drop ?n (c # cs)))"
        by (rule less)
      then show ?thesis
        unfolding Cons re_sub_Cons_Some [OF Some] by (simp add: TAG_RE_not_lt)
    next
      case None
      have ih: "tagfree (re_sub TAG_RE (\<lambda>m. '' '') cs)"
        by (rule less) (simp add: Cons)
      have "TAG_RE (c # re_sub TAG_RE (\<lambda>m. '' '') cs) = None"
      proof (cases "c = CHR ''<''")
        case False
        then show ?thesis by (rule TAG_RE_not_lt)
      next
        case True
        with None have "cs = [] \<or> hd cs = CHR ''>'' \<or> CHR ''>'' \<notin> set (tl cs)"
          by (simp add: TAG_RE_lt_None)
        then consider "cs = []" | cs' where "cs = CHR ''>'' # cs'"
          | "cs \<noteq> []" "hd cs \<noteq> CHR ''>''" "CHR ''>'' \<notin> set (tl cs)"
          by (cases cs) auto
        then show ?thesis
        proof cases
          case 1
          then show ?thesis using True by (simp add: TAG_RE_lt_None)
        next
          case 2
          have "re_sub TAG_RE (\<lambda>m. '' '') (CHR ''>'' # cs') =
              CHR ''>'' # re_sub TAG_RE (\<lambda>m. '' '') cs'"
            by (rule re_sub_Cons_None) (simp add: TAG_RE_not_lt)
          with 2 True show ?thesis
            by (simp del: re_sub.simps add: TAG_RE_lt_None)
        next
          case 3
          then have "CHR ''>'' \<notin> set cs" by (cases cs) auto
          then have "re_sub TAG_RE (\<lambda>m. '' '') cs = cs"
            by (intro re_sub_tagfree tagfree_no_gt)
          with None True show ?thesis by simp
        qed
      qed
      with ih show ?thesis unfolding Cons re_sub_Cons_None [OF None] by simp
    qed
  qed
qed

inductive_cases squeeze_NilE: "squeeze [] t"

inductive_cases squeeze_ConsE: "squeeze (c # s) t"

lemma squeeze_refl: "squeeze s s"
  by (induction s) (auto intro: squeeze.intros)

lemma squeeze_append: "squeeze a b \<Longrightarrow> squeeze c d \<Longrightarrow> squeeze (a @ c) (b @ d)"
  by (induction rule: squeeze.induct) (auto intro: squeeze.intros)

lemma squeeze_set: "squeeze s t \<Longrightarrow> c \<in> set t \<Longrightarrow> c \<in> set s \<or> isspace c"
  by (induction rule: squeeze.induct) auto

lemma not_isspace_gt: "\<not> isspace (CHR ''>'')"
  by (simp add: isspace_def)

lemma not_isspace_lt: "\<not> isspace (CHR ''<'')"
  by (simp add: isspace_def)

lemma squeeze_no_gt: "squeeze s t \<Longrightarrow> CHR ''>'' \<notin> set s \<Longrightarrow> CHR ''>'' \<notin> set t"
  using squeeze_set not_isspace_gt by blast

lemma squeeze_gt: "squeeze (CHR ''>'' # s) t \<Longrightarrow> \<exists>t'. t = CHR ''>'' # t'"
  by (erule squeeze_ConsE) (simp_all add: not_isspace_gt)

lemma squeeze_tagfree: "squeeze s t \<Longrightarrow> tagfree s \<Longrightarrow> tagfree t"
proof (induction rule: squeeze.induct)
  case squeeze_Nil
  show ?case by simp
next
  case (squeeze_keep s t c)
  from squeeze_keep.prems have n: "TAG_RE (c # s) = None" and "tagfree s" by simp_all
  then have t: "tagfree t" by (rule_tac squeeze_keep.IH)
  have "TAG_RE (c # t) = None"
  proof (cases "c = CHR ''<''")
    case False
    then show ?thesis by (rule TAG_RE_not_lt)
  next
    case True
    with n have "s = [] \<or> hd s = CHR ''>'' \<or> CHR ''>'' \<notin> set (tl s)"
      by (simp add: TAG_RE_lt_None)
    then consider "s = []" | s' where "s = CHR ''>'' # s'"
      | "s \<noteq> []" "hd s \<noteq> CHR ''>''" "CHR ''>'' \<notin> set (tl s)"
      by (cases s) auto
    then show ?thesis
    proof cases
      case 1
      with squeeze_keep.hyps have "t = []" by (auto elim: squeeze_NilE)
      with True show ?thesis by (simp add: TAG_RE_lt_None)
    next
      case 2
      with squeeze_keep.hyps obtain t' where "t = CHR ''>'' # t'"
        using squeeze_gt by blast
      with True show ?thesis by (simp add: TAG_RE_lt_None)
    next
      case 3
      then have "CHR ''>'' \<notin> set s" by (cases s) auto
      with squeeze_keep.hyps have "CHR ''>'' \<notin> set t" by (rule squeeze_no_gt)
      with True show ?thesis by (simp add: TAG_RE_lt_None) (cases t, auto)
    qed
  qed
  with t show ?case by simp
next
  case (squeeze_drop c s t)
  then show ?case by simp
next
  case (squeeze_swap c d s t)
  from squeeze_swap.hyps(2) have "d \<noteq> CHR ''<''" using not_isspace_lt by auto
  then have "TAG_RE (d # t) = None" by (rule TAG_RE_not_lt)
  with squeeze_swap show ?case by simp
qed

lemma join_Cons: "join sep (x # xs) = (if xs = [] then x else x @ sep @ join sep xs)"
  by (cases xs) simp_all

lemma isspace_space: "isspace (CHR '' '')"
  by (simp add: isspace_def)

lemma isspace_newline: "isspace newline"
  by (simp add: isspace_def newline_def)

lemma squeeze_split_from: "squeeze (w @ s) (join '' '' (split_from w s))"
proof (induction s arbitrary: w)
  case Nil
  show ?case by (simp add: squeeze_refl squeeze.intros)
next
  case (Cons c cs)
  show ?case
  proof (cases "isspace c")
    case False
    with Cons [of "w @ [c]"] show ?thesis by simp
  next
    case True
    note sp = this
    from Cons [of "[]"] have ih: "squeeze cs (join '' '' (split_from [] cs))" by simp
    show ?thesis
    proof (cases "w = []")
      case True
      with sp ih show ?thesis by (simp add: squeeze_drop)
    next
      case False
      show ?thesis
      proof (cases "split_from [] cs = []")
        case True
        with ih have "squeeze (c # cs) []" using sp by (simp add: squeeze_drop)
        from squeeze_append [OF squeeze_refl this, of w] show ?thesis
          using sp False True by simp
      next
        case ne: False
        from ih sp have "squeeze (c # cs) (CHR '' '' # join '' '' (split_from [] cs))"
          by (intro squeeze_swap isspace_space)
        from squeeze_append [OF squeeze_refl this, of w] show ?thesis
          using sp False ne by (simp add: join_Cons)
      qed
    qed
  qed
qed

lemma squeeze_squash: "squeeze line (squash line)"
  using squeeze_split_from [of "[]" line] by (simp add: squash_def split_def)

lemma islinebreak_isspace: "islinebreak c \<Longrightarrow> isspace c"
  by (auto simp: islinebreak_def isspace_def)

lemma join_lines_Cons:
  "join sep (filter (\<lambda>l. l \<noteq> []) (map squash (x # xs))) =
     (if squash x = [] then join sep (filter (\<lambda>l. l \<noteq> []) (map squash xs))
      else if filter (\<lambda>l. l \<noteq> []) (map squash xs) = [] then squash x
      else squash x @ sep @ join sep (filter (\<lambda>l. l \<noteq> []) (map squash xs)))"
  by (simp add: join_Cons)

lemma squeeze_line_break:
  assumes l: "squeeze l a" and s: "squeeze s (join [newline] ys)"
    and d: "squeeze brk []" and n: "squeeze brk [newline]"
  shows "squeeze (l @ brk @ s)
           (if a = [] then join [newline] ys else if ys = [] then a
            else a @ [newline] @ join [newline] ys)"
proof -
  from squeeze_append [OF d s] have ds: "squeeze (brk @ s) (join [newline] ys)" by simp
  from squeeze_append [OF n s] have ns: "squeeze (brk @ s) ([newline] @ join [newline] ys)" .
  show ?thesis
  proof (cases "a = []")
    case True
    with squeeze_append [OF l ds] show ?thesis by simp
  next
    case False
    show ?thesis
    proof (cases "ys = []")
      case True
      with squeeze_append [OF l ds] False show ?thesis by simp
    next
      case ne: False
      with squeeze_append [OF l ns] False show ?thesis by simp
    qed
  qed
qed

lemma squeeze_splitlines_from:
  "squeeze (l @ s) (join [newline] (filter (\<lambda>l. l \<noteq> []) (map squash (splitlines_from l s))))"
proof (induction "length s" arbitrary: l s rule: less_induct)
  case less
  show ?case
  proof (cases s)
    case Nil
    then show ?thesis using squeeze_squash [of l] by (auto simp: squeeze_Nil)
  next
    case (Cons c cs)
    show ?thesis
    proof (cases "c = CHR 0x0D \<and> (case cs of d # ds \<Rightarrow> d = CHR 0x0A | [] \<Rightarrow> False)")
      case True
      then obtain ds where cs: "cs = CHR 0x0A # ds" and c: "c = CHR 0x0D"
        by (cases cs) auto
      have ih: "squeeze ([] @ ds)
          (join [newline] (filter (\<lambda>l. l \<noteq> []) (map squash (splitlines_from [] ds))))"
        by (rule less) (simp add: Cons cs)
      have d: "squeeze [CHR 0x0D, CHR 0x0A] []"
        by (intro squeeze_drop squeeze_Nil) (simp_all add: isspace_def)
      have n: "squeeze [CHR 0x0D, CHR 0x0A] [newline]"
        unfolding newline_def
        by (intro squeeze_drop squeeze_keep squeeze_Nil) (simp add: isspace_def)
      have r: "splitlines_from l (c # cs) = l # splitlines_from [] ds"
        by (simp add: cs c)
      from squeeze_line_break [OF squeeze_squash _ d n, of ds _ l] ih
      show ?thesis
        unfolding Cons r join_lines_Cons by (simp add: cs c)
    next
      case False
      note nocrlf = this
      show ?thesis
      proof (cases "islinebreak c")
        case True
        then have sp: "isspace c" by (rule islinebreak_isspace)
        have ih: "squeeze ([] @ cs)
            (join [newline] (filter (\<lambda>l. l \<noteq> []) (map squash (splitlines_from [] cs))))"
          by (rule less) (simp add: Cons)
        have d: "squeeze [c] []"
          using sp by (intro squeeze_drop squeeze_Nil)
        have n: "squeeze [c] [newline]"
          using sp by (intro squeeze_swap squeeze_Nil isspace_newline)
        have r: "splitlines_from l (c # cs) = l # splitlines_from [] cs"
          using nocrlf True by auto
        from squeeze_line_break [OF squeeze_squash _ d n, of cs _ l] ih
        show ?thesis
          unfolding Cons r join_lines_Cons by simp
      next
        case False
        have "squeeze ((l @ [c]) @ cs)
            (join [newline] (filter (\<lambda>l. l \<noteq> []) (map squash (splitlines_from (l @ [c]) cs))))"
          by (rule less) (simp add: Cons)
        moreover have "splitlines_from l (c # cs) = splitlines_from (l @ [c]) cs"
          using nocrlf False by auto
        ultimately show ?thesis
          unfolding Cons by simp
      qed
    qed
  qed
qed

lemma squeeze_normalize_lines: "squeeze text (normalize_lines text)"
  using squeeze_splitlines_from [of "[]" "text"] by (simp add: normalize_lines_def splitlines_def)

lemma tagfree_normalize_lines: "tagfree text \<Longrightarrow> tagfree (normalize_lines text)"
  using squeeze_normalize_lines by (rule squeeze_tagfree)

lemma split_from_words:
  "\<forall>c \<in> set a. \<not> isspace c \<Longrightarrow> w \<in> set (split_from a s) \<Longrightarrow>
     w \<noteq> [] \<and> (\<forall>c \<in> set w. \<not> isspace c)"
proof (induction s arbitrary: a)
  case Nil
  then show ?case by (auto split: if_splits)
next
  case (Cons c cs)
  show ?case
  proof (cases "isspace c")
    case False
    with Cons.prems have "w \<in> set (split_from (a @ [c]) cs)" "\<forall>d \<in> set (a @ [c]). \<not> isspace d"
      by simp_all
    then show ?thesis using Cons.IH [of "a @ [c]"] by blast
  next
    case True
    with Cons.prems have "(a \<noteq> [] \<and> w = a) \<or> w \<in> set (split_from [] cs)"
      by (auto split: if_splits)
    then show ?thesis
    proof
      assume "a \<noteq> [] \<and> w = a"
      with Cons.prems show ?thesis by simp
    next
      assume "w \<in> set (split_from [] cs)"
      then show ?thesis using Cons.IH [of "[]"] by simp
    qed
  qed
qed

lemma split_from_nonspace:
  "\<forall>c \<in> set w. \<not> isspace c \<Longrightarrow> split_from a (w @ s) = split_from (a @ w) s"
  by (induction w arbitrary: a) simp_all

lemma split_join:
  "\<forall>w \<in> set ws. w \<noteq> [] \<and> (\<forall>c \<in> set w. \<not> isspace c) \<Longrightarrow> split_from [] (join '' '' ws) = ws"
proof (induction ws)
  case Nil
  show ?case by simp
next
  case (Cons w ws)
  then have w: "w \<noteq> []" "\<forall>c \<in> set w. \<not> isspace c" and
    ih: "split_from [] (join '' '' ws) = ws"
    by simp_all
  show ?case
  proof (cases "ws = []")
    case True
    from split_from_nonspace [OF w(2), of "[]" "[]"] w(1) True show ?thesis
      by simp
  next
    case False
    from split_from_nonspace [OF w(2), of "[]" "CHR '' '' # join '' '' ws"] w(1) ih False
    show ?thesis by (simp add: join_Cons isspace_space)
  qed
qed

lemma squash_idem: "squash (squash line) = squash line"
proof -
  have "split_from [] (join '' '' (split_from [] line)) = split_from [] line"
    by (rule split_join) (use split_from_words [of "[]" _ line] in simp)
  then show ?thesis by (simp add: squash_def split_def)
qed

lemma set_join: "c \<in> set (join sep xs) \<Longrightarrow> c \<in> set sep \<or> (\<exists>x \<in> set xs. c \<in> set x)"
  by (induction sep xs rule: join.induct) auto

lemma squash_no_linebreak: "c \<in> set (squash line) \<Longrightarrow> \<not> islinebreak c"
proof
  assume c: "c \<in> set (squash line)" and lb: "islinebreak c"
  from c have "c = CHR '' '' \<or> (\<exists>w \<in> set (split_from [] line). c \<in> set w)"
    using set_join [of c "'' ''" "split_from [] line"] by (simp add: squash_def split_def)
  then show False
  proof
    assume "c = CHR '' ''"
    with lb show False by (simp add: islinebreak_def)
  next
    assume "\<exists>w \<in> set (split_from [] line). c \<in> set w"
    then have "\<not> isspace c" using split_from_words [of "[]" _ line] by auto
    with lb show False by (simp add: islinebreak_isspace)
  qed
qed

lemma splitlines_from_no_linebreak:
  "\<forall>c \<in> set x. \<not> islinebreak c \<Longrightarrow> splitlines_from l (x @ s) = splitlines_from (l @ x) s"
proof (induction x arbitrary: l)
  case Nil
  show ?case by simp
next
  case (Cons c x)
  then have "\<not> islinebreak c" by simp
  moreover from this have "c \<noteq> CHR 0x0D" by (auto simp: islinebreak_def)
  ultimately show ?case using Cons by simp
qed

lemma splitlines_join:
  "\<forall>x \<in> set xs. x \<noteq> [] \<and> (\<forall>c \<in> set x. \<not> islinebreak c) \<Longrightarrow>
     splitlines_from [] (join [newline] xs) = xs"
proof (induction xs)
  case Nil
  show ?case by simp
next
  case (Cons x xs)
  then have x: "x \<noteq> []" "\<forall>c \<in> set x. \<not> islinebreak c" and
    ih: "splitlines_from [] (join [newline] xs) = xs"
    by simp_all
  show ?case
  proof (cases "xs = []")
    case True
    from splitlines_from_no_linebreak [OF x(2), of "[]" "[]"] x(1) True show ?thesis
      by simp
  next
    case False
    have "splitlines_from x (newline # join [newline] xs) =
        x # splitlines_from [] (join [newline] xs)"
      by (simp add: newline_def islinebreak_def)
    with splitlines_from_no_linebreak [OF x(2), of "[]" "newline # join [newline] xs"] ih False
    show ?thesis by (simp add: join_Cons)
  qed
qed

lemma normalize_lines_idem: "normalize_lines (normalize_lines s) = normalize_lines s"
proof -
  define xs where "xs = filter (\<lambda>l. l \<noteq> []) (map squash (splitlines s))"
  have ok: "\<forall>x \<in> set xs. x \<noteq> [] \<and> (\<forall>c \<in> set x. \<not> islinebreak c)"
    using squash_no_linebreak by (auto simp: xs_def)
  have sq: "map squash xs = xs"
    by (rule map_idI) (auto simp: xs_def squash_idem)
  have "splitlines (join [newline] xs) = xs"
    unfolding splitlines_def using ok by (rule splitlines_join)
  then have "normalize_lines (join [newline] xs) = join [newline] (filter (\<lambda>l. l \<noteq> []) xs)"
    by (simp add: normalize_lines_def sq)
  also have "filter (\<lambda>l. l \<noteq> []) xs = xs"
    by (simp add: xs_def)
  finally show ?thesis by (simp add: normalize_lines_def xs_def)
qed

lemma spares_lit: "(\<And>c. p c \<Longrightarrow> c \<noteq> CHR ''>'') \<Longrightarrow> spares (lit p)"
  unfolding spares_def lit_def
  by (auto split: list.splits if_splits intro: exI [of _ "[c]" for c])

lemma spares_star: "(\<And>c. p c \<Longrightarrow> c \<noteq> CHR ''>'') \<Longrightarrow> spares (star p)"
proof -
  assume p: "\<And>c. p c \<Longrightarrow> c \<noteq> CHR ''>''"
  have "s = takeWhile p s @ dropWhile p s \<and> CHR ''>'' \<notin> set (takeWhile p s)" for s
    using p by (auto dest: set_takeWhileD)
  then show ?thesis unfolding spares_def star_def by blast
qed

lemma spares_opt: "spares m \<Longrightarrow> spares (opt m)"
  unfolding spares_def opt_def
  by (auto split: option.splits intro: exI [of _ "[]"])

lemma spares_seqs: "\<forall>m \<in> set ms. spares m \<Longrightarrow> spares (seqs ms)"
proof (induction ms)
  case Nil
  show ?case unfolding spares_def by (auto intro: exI [of _ "[]"])
next
  case (Cons m ms)
  then have m: "spares m" and ms: "spares (seqs ms)" by simp_all
  show ?case
    unfolding spares_def
  proof (intro allI impI)
    fix s r assume "seqs (m # ms) s = Some r"
    then obtain s1 where 1: "m s = Some s1" and 2: "seqs ms s1 = Some r"
      by (auto split: option.splits)
    from m 1 obtain p where p: "s = p @ s1" "CHR ''>'' \<notin> set p"
      unfolding spares_def by blast
    from ms 2 obtain q where q: "s1 = q @ r" "CHR ''>'' \<notin> set q"
      unfolding spares_def by blast
    from p q have "s = (p @ q) @ r \<and> CHR ''>'' \<notin> set (p @ q)" by simp
    then show "\<exists>p. s = p @ r \<and> CHR ''>'' \<notin> set p" by blast
  qed
qed

lemma seqs_Cons_Some:
  "seqs (m # ms) s = Some r \<longleftrightarrow> (\<exists>s1. m s = Some s1 \<and> seqs ms s1 = Some r)"
  by (cases "m s") simp_all

lemma seqs_snoc_Some:
  "seqs (ms @ [m]) s = Some r \<longleftrightarrow> (\<exists>s1. seqs ms s = Some s1 \<and> m s1 = Some r)"
proof (induction ms arbitrary: s)
  case Nil
  show ?case by (cases "m s") simp_all
next
  case (Cons a ms)
  show ?case by (cases "a s") (simp_all add: Cons)
qed

lemma ch_ci_not_gt: "c \<in> set ''sbr'' \<Longrightarrow> ch_ci c d \<Longrightarrow> d \<noteq> CHR ''>''"
  by (auto simp: ch_ci_def lower_char_def isupper_def)

lemma BR_RE_body:
  "BR_RE s = Some r \<Longrightarrow>
     \<exists>p. s = CHR ''<'' # backslash # p @ CHR ''>'' # r \<and> CHR ''>'' \<notin> set p"
proof -
  let ?body = "[star (ch_ci (CHR ''s'')), lit (ch_ci (CHR ''b'')), lit (ch_ci (CHR ''r'')),
    lit (ch backslash), star (ch_ci (CHR ''s'')), opt (lit (ch (CHR ''/''))),
    lit (ch backslash), star (ch_ci (CHR ''s''))]"
  assume "BR_RE s = Some r"
  then have "seqs (lit (ch (CHR ''<'')) # lit (ch backslash) # (?body @ [lit (ch (CHR ''>''))])) s
      = Some r"
    by (simp only: BR_RE_def append.simps)
  then obtain s1 s2 s3 where
    1: "lit (ch (CHR ''<'')) s = Some s1" and 2: "lit (ch backslash) s1 = Some s2" and
    3: "seqs ?body s2 = Some s3" and 4: "lit (ch (CHR ''>'')) s3 = Some r"
    unfolding seqs_Cons_Some [of "lit (ch (CHR ''<''))"] seqs_Cons_Some [of "lit (ch backslash)"]
      seqs_snoc_Some
    by blast
  have "spares (seqs ?body)"
    by (rule spares_seqs)
      (auto intro!: spares_lit spares_star spares_opt
        simp: ch_def backslash_def dest: ch_ci_not_gt [rotated])
  with 3 obtain p where p: "s2 = p @ s3" "CHR ''>'' \<notin> set p"
    unfolding spares_def by blast
  from 1 2 4 p show ?thesis by (auto simp: lit_ch_Some)
qed

lemma BR_RE_TAG_RE: "BR_RE s = Some r \<Longrightarrow> TAG_RE s = Some r"
proof -
  assume "BR_RE s = Some r"
  from BR_RE_body [OF this] obtain p where
    s: "s = CHR ''<'' # backslash # p @ CHR ''>'' # r" and p: "CHR ''>'' \<notin> set p"
    by blast
  from p have "dropWhile (\<lambda>c. c \<noteq> CHR ''>'') (p @ CHR ''>'' # r) = CHR ''>'' # r"
    by (induction p) auto
  then show ?thesis
    unfolding s by (simp add: TAG_RE_Cons lit_ch_Some backslash_def)
qed

lemma re_sub_BR_tagfree: "tagfree s \<Longrightarrow> re_sub BR_RE repl s = s"
proof (induction s)
  case Nil
  show ?case by simp
next
  case (Cons c cs)
  then have "TAG_RE (c # cs) = None" and ih: "re_sub BR_RE repl cs = cs" by simp_all
  then have "BR_RE (c # cs) = None"
    using BR_RE_TAG_RE [of "c # cs"] by (cases "BR_RE (c # cs)") auto
  then have "match_len BR_RE (c # cs) = 0" by (simp add: match_len_def)
  with ih show ?case by simp
qed

lemma clean_text_eq:
  "clean_text lib (Some s) =
     (case unescape lib (re_sub BR_RE (\<lambda>m. [newline]) s) of
        Inl e \<Rightarrow> Inl e
      | Inr t \<Rightarrow> Inr (normalize_lines (re_sub TAG_RE (\<lambda>m. '' '') t)))"
proof -
  have "squash = (\<lambda>line. join '' '' (split line))"
    by (rule ext) (simp add: squash_def)
  then show ?thesis by (simp add: clean_text_def normalize_lines_def split: sum.splits)
qed

lemma clean_text_Inr:
  assumes "clean_text lib (Some s) = Inr y"
  shows "\<exists>t. unescape lib (re_sub BR_RE (\<lambda>m. [newline]) s) = Inr t \<and>
           y = normalize_lines (re_sub TAG_RE (\<lambda>m. '' '') t)"
  using assms unfolding clean_text_eq by (simp split: sum.splits)

lemma tagfree_clean_text: "clean_text lib (Some s) = Inr y \<Longrightarrow> tagfree y"
  using clean_text_Inr [of lib s y] by (auto intro: tagfree_normalize_lines tagfree_re_sub)

lemma clean_text_fixed:
  assumes x: "clean_text lib (Some x) = Inr y" and u: "unescape lib y = Inr y"
  shows "clean_text lib (Some y) = Inr y"
proof -
  have t: "tagfree y" using x by (rule tagfree_clean_text)
  from clean_text_Inr [OF x] obtain t' where
    y: "y = normalize_lines (re_sub TAG_RE (\<lambda>m. '' '') t')"
    by blast
  have "clean_text lib (Some y) = Inr (normalize_lines y)"
    unfolding clean_text_eq [of lib y] re_sub_BR_tagfree [OF t] u
    by (simp add: re_sub_tagfree [OF t])
  also have "normalize_lines y = y"
    unfolding y by (rule normalize_lines_idem)
  finally show ?thesis .
qed

lemma set_re_sub:
  "c \<in> set (re_sub m (\<lambda>x. k) s) \<Longrightarrow> c \<in> set s \<or> c \<in> set k"
proof (induction "length s" arbitrary: s rule: less_induct)
  case less
  show ?case
  proof (cases s)
    case Nil
    with less.prems show ?thesis by simp
  next
    case (Cons d ds)
    let ?n = "match_len m (d # ds)"
    show ?thesis
    proof (cases "?n = 0")
      case True
      with less.prems Cons have "c = d \<or> c \<in> set (re_sub m (\<lambda>x. k) ds)" by simp
      then show ?thesis using less.hyps [of ds] Cons by auto
    next
      case False
      with less.prems Cons have "c \<in> set k \<or> c \<in> set (re_sub m (\<lambda>x. k) (drop ?n (d # ds)))"
        by (auto simp: Let_def)
      moreover have "length (drop ?n (d # ds)) < length s" using False Cons by simp
      ultimately have "c \<in> set k \<or> c \<in> set (drop ?n (d # ds))"
        using less.hyps [of "drop ?n (d # ds)"] by blast
      moreover have "set (drop ?n (d # ds)) \<subseteq> set (d # ds)" by (rule set_drop_subset)
      ultimately show ?thesis using Cons by blast
    qed
  qed
qed

text \<open>
  A string without \<open>&\<close> is cleaned without a call of the library's decoder, and its
  cleaned form holds no \<open>&\<close> either.
\<close>

lemma clean_text_no_amp:
  assumes "CHR ''&'' \<notin> set x"
  shows "\<exists>y. clean_text lib (Some x) = Inr y \<and> CHR ''&'' \<notin> set y"
proof -
  let ?b = "re_sub BR_RE (\<lambda>m. [newline]) x"
  let ?t = "re_sub TAG_RE (\<lambda>m. '' '') ?b"
  have b: "CHR ''&'' \<notin> set ?b"
    using set_re_sub [of "CHR ''&''" BR_RE "[newline]" x] assms by (auto simp: newline_def)
  then have u: "unescape lib ?b = Inr ?b" by (simp add: unescape_def)
  then have c: "clean_text lib (Some x) = Inr (normalize_lines ?t)"
    unfolding clean_text_eq by simp
  have "CHR ''&'' \<notin> set (normalize_lines ?t)"
  proof
    assume "CHR ''&'' \<in> set (normalize_lines ?t)"
    then have "CHR ''&'' \<in> set ?t \<or> isspace (CHR ''&'')"
      using squeeze_set [OF squeeze_normalize_lines] by blast
    then have "CHR ''&'' \<in> set ?t" by (simp add: isspace_def)
    then have "CHR ''&'' \<in> set ?b"
      using set_re_sub [of "CHR ''&''" TAG_RE "'' ''" ?b] by auto
    with b show False by simp
  qed
  with c show ?thesis by blast
qed

lemma clean_text_amp_amp: "clean_text sample_lib (Some ''&amp;amp;'') = Inr ''&amp;''"
  by (simp add: clean_eval sample_lib_def)

lemma clean_text_amp: "clean_text sample_lib (Some ''&amp;'') = Inr ''&''"
  by (simp add: clean_eval sample_lib_def)

lemma clean_text_rd: "clean_text sample_lib (Some ''<b>R&D</b>  lead'') = Inr ''R&D lead''"
  by (simp add: clean_eval sample_lib_def)

lemma unescape_rd: "unescape sample_lib ''R&D lead'' = Inr ''R&D lead''"
  by (simp add: unescape_def sample_lib_def)

text \<open>
  C2, as amended. \<open>clean(clean(x)) == clean(x)\<close> holds for every string \<open>x\<close> whose cleaned
  form \<open>clean(x)\<close> is left unchanged by the entity decoding \<open>html.unescape\<close>; in particular
  it holds for every \<open>x\<close> without the character \<open>&\<close>. This holds whatever the decoding of
  the library is: \<open>y\<close> is the cleaned form \<open>clean(x)\<close>.
\<close>

theorem clean_text_idempotent:
  "(clean_text lib (Some x) = Inr y \<and> unescape lib y = Inr y \<longrightarrow>
      clean_text lib (Some y) = Inr y) \<and>
   (CHR ''&'' \<notin> set x \<longrightarrow>
      (\<exists>y. clean_text lib (Some x) = Inr y \<and> clean_text lib (Some y) = Inr y))"
proof (intro conjI impI)
  assume "clean_text lib (Some x) = Inr y \<and> unescape lib y = Inr y"
  then show "clean_text lib (Some y) = Inr y"
    using clean_text_fixed by blast
next
  assume "CHR ''&'' \<notin> set x"
  from clean_text_no_amp [OF this] obtain z where
    z: "clean_text lib (Some x) = Inr z" and a: "CHR ''&'' \<notin> set z"
    by blast
  from a have "unescape lib z = Inr z" by (simp add: unescape_def)
  with z have "clean_text lib (Some z) = Inr z" by (rule clean_text_fixed)
  with z show "\<exists>y. clean_text lib (Some x) = Inr y \<and> clean_text lib (Some y) = Inr y"
    by blast
qed

theorem clean_text_idempotent_witness:
  "clean_text sample_lib (Some ''<b>R&D</b>  lead'') = Inr ''R&D lead'' \<and>
   unescape sample_lib ''R&D lead'' = Inr ''R&D lead'' \<and>
   clean_text sample_lib (Some ''R&D lead'') = Inr ''R&D lead'' \<and>
   CHR ''&'' \<notin> set ''a<br>b'' \<and>
   clean_text sample_lib (Some ''a<br>b'') = Inr ''a b'' \<and>
   clean_text sample_lib (Some ''a b'') = Inr ''a b''"
proof -
  have a: "CHR ''&'' \<notin> set ''a<br>b''" by simp
  have b: "clean_text sample_lib (Some ''a<br>b'') = Inr ''a b''"
    by (simp add: clean_eval)
  from clean_text_idempotent [of sample_lib "''<b>R&D</b>  lead''" "''R&D lead''"]
  have 1: "clean_text sample_lib (Some ''R&D lead'') = Inr ''R&D lead''"
    using clean_text_rd unescape_rd by blast
  from clean_text_idempotent [of sample_lib "''a<br>b''"] a b
  have 2: "clean_text sample_lib (Some ''a b'') = Inr ''a b''"
    by auto
  from clean_text_rd unescape_rd 1 a b 2 show ?thesis by (intro conjI)
qed

text \<open>
  The claim C2 as it is stated, for all strings, fails: entity decoding is applied at
  every call, so a doubly escaped ampersand is decoded once more by the second call.
  \<open>html.unescape\<close> turns \<open>&amp;amp;\<close> into \<open>&amp;\<close> and \<open>&amp;\<close> into \<open>&\<close>.
\<close>

theorem clean_text_not_idempotent:
  "clean_text sample_lib (Some ''&amp;amp;'') = Inr ''&amp;'' \<and>
   clean_text sample_lib (Some ''&amp;'') = Inr ''&'' \<and>
   clean_text sample_lib (Some ''&amp;'') \<noteq> clean_text sample_lib (Some ''&amp;amp;'')"
  by (simp add: clean_text_amp_amp clean_text_amp)

subsection \<open>Totality of the parsers\<close>

text \<open>
  The salary parser returns for every record: the mean is only computed for a non-empty
  list of numbers, and a token that \<open>float\<close> rejects is skipped. The classifiers have no
  operation that can raise.
\<close>

lemma parse_salary_monthly_returns: "\<exists>r. parse_salary_monthly job = Inr r"
  by (simp add: parse_salary_monthly_cases Let_def)

text \<open>
  The date parser returns for every record as long as the library parsers raise nothing
  but the exceptions that \<open>parse_date\<close> catches.
\<close>

lemma parse_date_returns:
  assumes "\<And>s e. fromisoformat lib s = Inl e \<Longrightarrow> e \<in> {ValueError, TypeError}"
    and "\<And>s e. parsedate_to_datetime lib s = Inl e \<Longrightarrow> e \<in> {ValueError, TypeError, IndexError}"
    and "\<And>s f e. strptime lib s f = Inl e \<Longrightarrow> e \<in> {ValueError, TypeError}"
  shows "\<exists>r. parse_date lib job = Inr r"
proof -
  define raw where "raw = strip (let p = get_or_empty job ''posted_date''
    in if p \<noteq> [] then p else get_or_empty job ''date_posted'')"
  have 1: "e \<in> {ValueError, TypeError}" if "fromisoformat lib raw = Inl e" for e
    using assms(1) that by blast
  have 2: "e \<in> {ValueError, TypeError, IndexError}" if "parsedate_to_datetime lib raw = Inl e" for e
    using assms(2) that by blast
  have 3: "e \<in> {ValueError, TypeError}" if "strptime lib raw f = Inl e" for e f
    using assms(3) that by blast
  show ?thesis
    unfolding parse_date_def raw_def [symmetric]
    using 1 2 3 [of "''%b %d, %Y''"] 3 [of "''%Y-%m-%d''"]
    by (auto simp: Let_def split: sum.splits)
qed

lemma strip_overflow_example:
  "strip ''Wed, 12 Nov 2025 08:56:02 +9999999999999999'' =
     ''Wed, 12 Nov 2025 08:56:02 +9999999999999999''"
  by (simp add: strip_def isspace_def)

text \<open>
  C9. The claim: the parsing functions return a value for every job record and never
  raise. The code: \<open>parse_date\<close> catches \<open>ValueError\<close>, \<open>TypeError\<close> and \<open>IndexError\<close> around
  \<open>parsedate_to_datetime\<close>. For the date string
  \<open>Wed, 12 Nov 2025 08:56:02 +9999999999999999\<close> the ISO parser fails with \<open>ValueError\<close>, which
  is caught, and \<open>parsedate_to_datetime\<close> raises \<open>OverflowError\<close>, which is not: the
  exception leaves \<open>parse_date\<close>, although its documentation promises \<open>None\<close> for a string
  that cannot be parsed.
\<close>

theorem parse_date_raises:
  assumes "fromisoformat lib ''Wed, 12 Nov 2025 08:56:02 +9999999999999999'' = Inl ValueError"
    and "parsedate_to_datetime lib ''Wed, 12 Nov 2025 08:56:02 +9999999999999999'' =
      Inl OverflowError"
  shows "parse_date lib [''posted_date'' \<mapsto> Some ''Wed, 12 Nov 2025 08:56:02 +9999999999999999''] =
    Inl OverflowError"
proof -
  have "get_or_empty [''posted_date'' \<mapsto> Some ''Wed, 12 Nov 2025 08:56:02 +9999999999999999'']
      ''posted_date'' = ''Wed, 12 Nov 2025 08:56:02 +9999999999999999''"
    by (simp add: get_or_empty_def)
  then show ?thesis
    unfolding parse_date_def using assms by (simp add: strip_overflow_example)
qed

theorem parse_date_raises_witness:
  "parse_date overflowing_lib
     [''posted_date'' \<mapsto> Some ''Wed, 12 Nov 2025 08:56:02 +9999999999999999''] =
   Inl OverflowError"
  by (rule parse_date_raises) (simp_all add: overflowing_lib_def)

text \<open>The exception is not caught by \<open>load_jobs\<close> either.\<close>

lemma load_jobs_raises:
  "load_jobs overflowing_lib
     (Some [[''posted_date'' \<mapsto> Some ''Wed, 12 Nov 2025 08:56:02 +9999999999999999'']]) =
   Inl OverflowError"
proof -
  have n: "normalize_job_text overflowing_lib
      [''posted_date'' \<mapsto> Some ''Wed, 12 Nov 2025 08:56:02 +9999999999999999''] =
      Inr [''posted_date'' \<mapsto> Some ''Wed, 12 Nov 2025 08:56:02 +9999999999999999'']"
    by (simp add: normalize_job_text_def TEXT_KEYS_def)
  have "parse_date overflowing_lib
      [''posted_date'' \<mapsto> Some ''Wed, 12 Nov 2025 08:56:02 +9999999999999999''] =
      Inl OverflowError"
    by (simp add: parse_date_def get_or_empty_def strip_overflow_example overflowing_lib_def)
  with n show ?thesis by (simp add: load_jobs_def load_job_def)
qed

text \<open>
  An exception of \<open>html.unescape\<close> is caught neither by \<open>clean_text\<close> nor by
  \<open>normalize_job_text\<close>.
\<close>

lemma clean_text_raises:
  "unescape lib (re_sub BR_RE (\<lambda>m. [newline]) s) = Inl e \<Longrightarrow> clean_text lib (Some s) = Inl e"
  by (simp add: clean_text_def)

lemma normalize_job_text_raises:
  "clean_text lib v = Inl e \<Longrightarrow> normalize_job_text lib [''title'' \<mapsto> v] = Inl e"
  by (simp add: normalize_job_text_def TEXT_KEYS_def)

end
